theory Spec2Isabelle
  imports Main
begin

section \<open>Strings of the handler\<close>

text \<open>
  The handler of \<^verbatim>\<open>GET /api/proxy-manifest\<close> works on JavaScript strings. A string is
  modelled as the list of bytes of its UTF-8 encoding (\<^typ>\<open>string\<close>). Every needle the
  handler searches for (\<^verbatim>\<open>http\<close>, \<^verbatim>\<open>/\<close>, \<^verbatim>\<open>#\<close>, \<^verbatim>\<open>URI="\<close>, the line feed, the double quote)
  is ASCII, so searching, splitting and slicing at these needles cut the bytes where they
  cut the UTF-16 code units. The two operations that look at other characters are
  \<^verbatim>\<open>trim\<close>, which is given the UTF-8 forms of the white space of ECMAScript, and
  \<^verbatim>\<open>encodeURIComponent\<close>, which escapes the UTF-8 bytes one by one.
\<close>

definition startsWith :: "string \<Rightarrow> string \<Rightarrow> bool" where
  "startsWith s p = (take (length p) s = p)"

definition endsWith :: "string \<Rightarrow> string \<Rightarrow> bool" where
  "endsWith s p = (length p \<le> length s \<and> drop (length s - length p) s = p)"

text \<open>\<^verbatim>\<open>s.includes(p)\<close>: \<open>p\<close> occurs in \<open>s\<close> at some position.\<close>

fun str_includes :: "string \<Rightarrow> string \<Rightarrow> bool" where
  "str_includes [] p = (p = [])"
| "str_includes (c # cs) p = (startsWith (c # cs) p \<or> str_includes cs p)"

text \<open>
  \<^verbatim>\<open>s.lastIndexOf(c)\<close> for a one-character needle: the index of the last occurrence,
  \<open>-1\<close> when there is none. The scan keeps the last index seen.
\<close>

primrec last_index_from :: "char \<Rightarrow> string \<Rightarrow> int \<Rightarrow> int \<Rightarrow> int" where
  "last_index_from c [] i found = found"
| "last_index_from c (x # xs) i found =
     last_index_from c xs (i + 1) (if x = c then i else found)"

definition lastIndexOf :: "string \<Rightarrow> char \<Rightarrow> int" where
  "lastIndexOf s c = last_index_from c s 0 (- 1)"

text \<open>\<^verbatim>\<open>s.substring(0, n)\<close>: a negative end counts as 0, an end beyond the string as its length.\<close>

definition substring0 :: "string \<Rightarrow> int \<Rightarrow> string" where
  "substring0 s n = take (nat n) s"

text \<open>
  \<^verbatim>\<open>s.split('\n')\<close> and \<^verbatim>\<open>lines.join('\n')\<close>. The empty string splits into one empty line.
  A character other than the line feed goes in front of the first line of what follows
  (there always is one: a split never yields the empty list).
\<close>

definition LF :: char where
  "LF = CHR 0x0A"

definition DQ :: char where
  "DQ = CHR 0x22"

fun split_lines :: "string \<Rightarrow> string list" where
  "split_lines [] = [[]]"
| "split_lines (c # cs) =
     (if c = LF then [] # split_lines cs
      else (case split_lines cs of
              [] \<Rightarrow> [[c]]
            | l # ls \<Rightarrow> (c # l) # ls))"

fun join_lines :: "string list \<Rightarrow> string" where
  "join_lines [] = []"
| "join_lines [l] = l"
| "join_lines (l # l' # ls) = l @ LF # join_lines (l' # ls)"

text \<open>
  \<^verbatim>\<open>s.trim()\<close> removes the white space and line terminators of ECMAScript from both
  ends: U+0009 to U+000D, U+0020, U+00A0, U+1680, U+2000 to U+200A, U+2028, U+2029,
  U+202F, U+205F, U+3000 and U+FEFF, listed here in UTF-8.
\<close>

definition white_space :: "string list" where
  "white_space =
    [[CHR 0x09], [CHR 0x0A], [CHR 0x0B], [CHR 0x0C], [CHR 0x0D], [CHR 0x20],
     [CHR 0xC2, CHR 0xA0],
     [CHR 0xE1, CHR 0x9A, CHR 0x80],
     [CHR 0xE2, CHR 0x80, CHR 0x80], [CHR 0xE2, CHR 0x80, CHR 0x81],
     [CHR 0xE2, CHR 0x80, CHR 0x82], [CHR 0xE2, CHR 0x80, CHR 0x83],
     [CHR 0xE2, CHR 0x80, CHR 0x84], [CHR 0xE2, CHR 0x80, CHR 0x85],
     [CHR 0xE2, CHR 0x80, CHR 0x86], [CHR 0xE2, CHR 0x80, CHR 0x87],
     [CHR 0xE2, CHR 0x80, CHR 0x88], [CHR 0xE2, CHR 0x80, CHR 0x89],
     [CHR 0xE2, CHR 0x80, CHR 0x8A],
     [CHR 0xE2, CHR 0x80, CHR 0xA8], [CHR 0xE2, CHR 0x80, CHR 0xA9],
     [CHR 0xE2, CHR 0x80, CHR 0xAF],
     [CHR 0xE2, CHR 0x81, CHR 0x9F],
     [CHR 0xE3, CHR 0x80, CHR 0x80],
     [CHR 0xEF, CHR 0xBB, CHR 0xBF]]"

text \<open>The number of bytes of the white-space character a string starts (ends) with, 0 when it starts (ends) with none.\<close>

definition leading_ws :: "string \<Rightarrow> nat" where
  "leading_ws s = (case find (startsWith s) white_space of None \<Rightarrow> 0 | Some w \<Rightarrow> length w)"

definition trailing_ws :: "string \<Rightarrow> nat" where
  "trailing_ws s = (case find (endsWith s) white_space of None \<Rightarrow> 0 | Some w \<Rightarrow> length w)"

lemma find_white_space_pos:
  assumes "find P white_space = Some w"
  shows "0 < length w \<and> P w"
proof -
  from assms have "w \<in> set white_space \<and> P w"
    by (metis find_Some_iff nth_mem)
  moreover have "\<forall>w \<in> set white_space. 0 < length w"
    by (simp add: white_space_def)
  ultimately show ?thesis by blast
qed

lemma leading_ws_le: "leading_ws s \<le> length s"
proof (cases "find (startsWith s) white_space")
  case None
  then show ?thesis by (simp add: leading_ws_def)
next
  case (Some w)
  then have "startsWith s w" using find_white_space_pos by blast
  then have "length (take (length w) s) = length w"
    by (simp add: startsWith_def)
  then have "length w \<le> length s" by simp
  with Some show ?thesis by (simp add: leading_ws_def)
qed

lemma trailing_ws_le: "trailing_ws s \<le> length s"
proof (cases "find (endsWith s) white_space")
  case None
  then show ?thesis by (simp add: trailing_ws_def)
next
  case (Some w)
  then have "endsWith s w" using find_white_space_pos by blast
  with Some show ?thesis by (simp add: trailing_ws_def endsWith_def)
qed

function trimStart :: "string \<Rightarrow> string" where
  "trimStart s = (if leading_ws s = 0 then s else trimStart (drop (leading_ws s) s))"
  by pat_completeness auto
termination
proof (relation "measure length")
  show "wf (measure length)" by simp
next
  fix s :: string
  assume "leading_ws s \<noteq> 0"
  moreover have "leading_ws s \<le> length s" by (rule leading_ws_le)
  ultimately show "(drop (leading_ws s) s, s) \<in> measure length" by simp
qed

function trimEnd :: "string \<Rightarrow> string" where
  "trimEnd s = (if trailing_ws s = 0 then s else trimEnd (take (length s - trailing_ws s) s))"
  by pat_completeness auto
termination
proof (relation "measure length")
  show "wf (measure length)" by simp
next
  fix s :: string
  assume "trailing_ws s \<noteq> 0"
  moreover have "trailing_ws s \<le> length s" by (rule trailing_ws_le)
  ultimately show "(take (length s - trailing_ws s) s, s) \<in> measure length" by simp
qed

declare trimStart.simps [simp del]
declare trimEnd.simps [simp del]

definition trim :: "string \<Rightarrow> string" where
  "trim s = trimEnd (trimStart s)"


section \<open>Percent-encoding\<close>

text \<open>
  \<^verbatim>\<open>encodeURIComponent\<close> keeps the unreserved characters of ECMAScript (letters, digits
  and \<^verbatim>\<open>- _ . ! ~ * ' ( )\<close>) and writes every other byte of the UTF-8 form as \<^verbatim>\<open>%XX\<close>
  with upper-case hexadecimal digits. The strings of a manifest come from
  \<^verbatim>\<open>response.text()\<close>, which yields well-formed text, so the \<^verbatim>\<open>URIError\<close> for a lone
  surrogate has no counterpart here.
\<close>

definition uri_unreserved :: "char \<Rightarrow> bool" where
  "uri_unreserved c =
     (c \<in> set ''ABCDEFGHIJKLMNOPQRSTUVWXYZabcdefghijklmnopqrstuvwxyz0123456789-_.!~*'()'')"

definition hex_digit :: "nat \<Rightarrow> char" where
  "hex_digit n = ''0123456789ABCDEF'' ! (n mod 16)"

definition percent_escape :: "char \<Rightarrow> string" where
  "percent_escape c =
     [CHR ''%'', hex_digit ((of_char c :: nat) div 16), hex_digit ((of_char c :: nat) mod 16)]"

definition encodeURIComponent :: "string \<Rightarrow> string" where
  "encodeURIComponent s =
     concat (map (\<lambda>c. if uri_unreserved c then [c] else percent_escape c) s)"

text \<open>
  \<^verbatim>\<open>decodeURIComponent\<close>, with which the query parser of the server reads the value of
  \<^verbatim>\<open>url\<close> back: \<^verbatim>\<open>%XX\<close> (hexadecimal digits of either case) becomes the byte, any other
  character stands for itself, and a \<^verbatim>\<open>%\<close> not followed by two hexadecimal digits is
  an error (\<open>None\<close>). The \<^verbatim>\<open>URIError\<close> for escaped bytes that are not UTF-8 is left out:
  a string of the model stands for well-formed text.
\<close>

definition hex_value :: "char \<Rightarrow> nat option" where
  "hex_value c =
     (let n = (of_char c :: nat) in
      if 48 \<le> n \<and> n \<le> 57 then Some (n - 48)
      else if 65 \<le> n \<and> n \<le> 70 then Some (n - 55)
      else if 97 \<le> n \<and> n \<le> 102 then Some (n - 87)
      else None)"

fun decodeURIComponent :: "string \<Rightarrow> string option" where
  "decodeURIComponent [] = Some []"
| "decodeURIComponent (c # cs) =
     (if c = CHR ''%'' then
        (case cs of
           h # l # rest \<Rightarrow>
             (case (hex_value h, hex_value l) of
                (Some a, Some b) \<Rightarrow>
                  map_option ((#) (char_of (16 * a + b))) (decodeURIComponent rest)
              | _ \<Rightarrow> None)
         | _ \<Rightarrow> None)
      else map_option ((#) c) (decodeURIComponent cs))"

section \<open>Rewriting a manifest\<close>

text \<open>
  The two fields of \<^verbatim>\<open>new URL(url)\<close> the handler reads: the origin (scheme, host and,
  when it is not the default one, port) and the path. Parsing a URL is the platform's work;
  the handler is given its result.
\<close>

record parsed_url =
  origin :: string
  pathname :: string

text \<open>
  \<^verbatim>\<open>parsedUrl.origin + parsedUrl.pathname.substring(0, parsedUrl.pathname.lastIndexOf('/') + 1)\<close>
\<close>

definition baseUrl :: "parsed_url \<Rightarrow> string" where
  "baseUrl parsedUrl =
     origin parsedUrl
       @ substring0 (pathname parsedUrl) (lastIndexOf (pathname parsedUrl) (CHR ''/'') + 1)"

definition proxy_prefix :: string where
  "proxy_prefix = ''/api/proxy-manifest?url=''"

definition uri_open :: string where
  "uri_open = ''URI='' @ [DQ]"

text \<open>
  One attempt of the regular expression \<^verbatim>\<open>URI="([^"]+)"\<close> at the start of a string: the
  literal \<^verbatim>\<open>URI="\<close>, then as many characters other than the double quote as there are (at
  least one), then a double quote. The result is the captured group and the text after
  the match.
\<close>

definition match_uri :: "string \<Rightarrow> (string \<times> string) option" where
  "match_uri s =
     (if startsWith s uri_open then
        (let after = drop (length uri_open) s;
             p1 = takeWhile (\<lambda>c. c \<noteq> DQ) after;
             rest = dropWhile (\<lambda>c. c \<noteq> DQ) after
         in if p1 \<noteq> [] \<and> rest \<noteq> [] then Some (p1, tl rest) else None)
      else None)"

lemma match_uri_shorter:
  assumes "match_uri s = Some (p1, rest)"
  shows "length rest < length s"
proof -
  let ?after = "drop (length uri_open) s"
  from assms have r: "rest = tl (dropWhile (\<lambda>c. c \<noteq> DQ) ?after)"
    by (auto simp: match_uri_def Let_def split: if_splits)
  have "length (dropWhile (\<lambda>c. c \<noteq> DQ) ?after) \<le> length ?after"
    by (rule length_dropWhile_le)
  moreover from assms have "startsWith s uri_open"
    by (auto simp: match_uri_def split: if_splits)
  then have "length (take (length uri_open) s) = length uri_open"
    by (simp add: startsWith_def)
  then have "length uri_open \<le> length s" by simp
  moreover have "length uri_open = 5" by (simp add: uri_open_def)
  moreover have "length rest = length (dropWhile (\<lambda>c. c \<noteq> DQ) ?after) - 1"
    using r by simp
  moreover have "length ?after = length s - length uri_open" by simp
  ultimately show ?thesis by linarith
qed

text \<open>
  \<^verbatim>\<open>trimmed.replace(/URI="([^"]+)"/g, (match, p1) => ...)\<close>: the matches are found from
  left to right, each search starting after the previous match; every match is replaced by
  what the callback returns for its group, the text between the matches is kept.
\<close>

function replace_uri :: "(string \<Rightarrow> string) \<Rightarrow> string \<Rightarrow> string" where
  "replace_uri f [] = []"
| "replace_uri f (c # cs) =
     (case match_uri (c # cs) of
        Some (p1, rest) \<Rightarrow> f p1 @ replace_uri f rest
      | None \<Rightarrow> c # replace_uri f cs)"
  by pat_completeness auto
termination
proof (relation "measure (\<lambda>(f, s). length s)")
  show "wf (measure (\<lambda>(f, s). length s))" by simp
next
  fix f :: "string \<Rightarrow> string" and c cs x2 p1 rest
  assume "match_uri (c # cs) = Some x2" and "(p1, rest) = x2"
  then have "length rest < length (c # cs)" using match_uri_shorter by blast
  then show "((f, rest), (f, c # cs)) \<in> measure (\<lambda>(f, s). length s)" by simp
next
  fix f :: "string \<Rightarrow> string" and c cs
  show "((f, cs), (f, c # cs)) \<in> measure (\<lambda>(f, s). length s)" by simp
qed

declare replace_uri.simps [simp del]

text \<open>The callback of the replacement (lines 84 to 90 of the server).\<close>

definition uri_replacer :: "parsed_url \<Rightarrow> string \<Rightarrow> string" where
  "uri_replacer parsedUrl p1 =
     (let absoluteAttrUrl =
            (if \<not> startsWith p1 ''http''
             then (if startsWith p1 ''/'' then origin parsedUrl @ p1 else baseUrl parsedUrl @ p1)
             else p1)
      in uri_open @ proxy_prefix @ encodeURIComponent absoluteAttrUrl @ [DQ])"

text \<open>The function mapped over the lines (lines 79 to 101 of the server).\<close>

definition rewrite_line :: "parsed_url \<Rightarrow> string \<Rightarrow> string" where
  "rewrite_line parsedUrl line =
     (let trimmed = trim line in
      if trimmed = [] \<or> startsWith trimmed ''#'' then
        (if str_includes trimmed uri_open
         then replace_uri (uri_replacer parsedUrl) trimmed
         else line)
      else
        (let absoluteUrl =
               (if \<not> startsWith trimmed ''http''
                then (if startsWith trimmed ''/'' then origin parsedUrl @ trimmed
                      else baseUrl parsedUrl @ trimmed)
                else trimmed)
         in proxy_prefix @ encodeURIComponent absoluteUrl))"

definition rewrite_manifest :: "parsed_url \<Rightarrow> string \<Rightarrow> string" where
  "rewrite_manifest parsedUrl text =
     join_lines (map (rewrite_line parsedUrl) (split_lines text))"


section \<open>The response object of the framework\<close>

text \<open>
  The handler answers through the response object of Express 4: \<^verbatim>\<open>res.status\<close>,
  \<^verbatim>\<open>res.set\<close> and \<^verbatim>\<open>res.send\<close>. The object holds the status (200 until \<^verbatim>\<open>res.status\<close> is
  called), the headers, and the body that was sent (\<open>None\<close> as long as nothing is sent), a
  string or a buffer. The headers are those the handler sets and the two that
  \<^verbatim>\<open>res.send\<close> sets itself, \<^verbatim>\<open>Content-Type\<close> and \<^verbatim>\<open>Content-Length\<close>, under the names as the
  handler and the framework write them. Not held are \<^verbatim>\<open>ETag\<close>, which \<^verbatim>\<open>res.send\<close> computes
  as a hash of the body, \<^verbatim>\<open>X-Powered-By\<close>, and the headers of the HTTP layer. The request is
  a \<^verbatim>\<open>GET\<close> without validators (no \<^verbatim>\<open>If-None-Match\<close>, no \<^verbatim>\<open>If-Modified-Since\<close>), so that
  \<^verbatim>\<open>req.fresh\<close> is false when \<^verbatim>\<open>res.send\<close> asks for it.
\<close>

datatype body = Str string | Buf string

record express_res =
  statusCode :: nat
  res_headers :: "string \<rightharpoonup> string"
  sent :: "body option"

definition fresh_res :: express_res where
  "fresh_res = \<lparr>statusCode = 200, res_headers = Map.empty, sent = None\<rparr>"

definition res_status :: "nat \<Rightarrow> express_res \<Rightarrow> express_res" where
  "res_status code res = res\<lparr>statusCode := code\<rparr>"

text \<open>A string that may be absent is truthy when it is there and not empty.\<close>

definition truthy :: "string option \<Rightarrow> bool" where
  "truthy v = (case v of None \<Rightarrow> False | Some s \<Rightarrow> s \<noteq> [])"

text \<open>
  A number turned into a string (the status inside a template literal, the length given
  to \<^verbatim>\<open>Content-Length\<close>): its decimal digits.
\<close>

fun decimal :: "nat \<Rightarrow> string" where
  "decimal n =
     (if n < 10 then [''0123456789'' ! n]
      else decimal (n div 10) @ [''0123456789'' ! (n mod 10)])"

declare decimal.simps [simp del]

subsection \<open>\<^verbatim>\<open>res.set\<close>\<close>

text \<open>
  \<^verbatim>\<open>res.set\<close> stores the value under the name. For \<^verbatim>\<open>Content-Type\<close> it first appends
  \<^verbatim>\<open>; charset=utf-8\<close> when the value has no charset parameter (the regular expression
  \<^verbatim>\<open>/;\s*charset\s*=/\<close> finds nothing) and the text before its first \<^verbatim>\<open>;\<close> starts with
  \<^verbatim>\<open>text/\<close>, \<^verbatim>\<open>application/javascript\<close> or \<^verbatim>\<open>application/json\<close>.
\<close>

fun has_charset_param :: "string \<Rightarrow> bool" where
  "has_charset_param [] = False"
| "has_charset_param (c # cs) =
     ((c = CHR '';''
        \<and> (let a = trimStart cs
           in startsWith a ''charset'' \<and> startsWith (trimStart (drop 7 a)) ''=''))
      \<or> has_charset_param cs)"

definition charset_lookup :: "string \<Rightarrow> bool" where
  "charset_lookup mimeType =
     (startsWith mimeType ''text/'' \<or> startsWith mimeType ''application/javascript''
      \<or> startsWith mimeType ''application/json'')"

definition stored_value :: "string \<Rightarrow> string \<Rightarrow> string" where
  "stored_value name v =
     (if name = ''Content-Type'' \<and> \<not> has_charset_param v
         \<and> charset_lookup (takeWhile (\<lambda>c. c \<noteq> CHR '';'') v)
      then v @ ''; charset=utf-8'' else v)"

definition res_set :: "string \<Rightarrow> string \<Rightarrow> express_res \<Rightarrow> express_res" where
  "res_set name v res = res\<lparr>res_headers := (res_headers res)(name \<mapsto> stored_value name v)\<rparr>"

subsection \<open>Media types\<close>

text \<open>
  For a string, \<^verbatim>\<open>res.send\<close> writes the charset into the \<^verbatim>\<open>Content-Type\<close> with
  \<^verbatim>\<open>setCharset(type, 'utf-8')\<close>, which parses the media type, sets its parameter
  \<^verbatim>\<open>charset\<close> and formats it again. The parser throws a \<^verbatim>\<open>TypeError\<close> for a value that is
  not a media type. A header value is a string of characters up to U+00FF, here in UTF-8 as
  every string.
\<close>

definition BS :: char where
  "BS = CHR 0x5C"

definition token_char :: "char \<Rightarrow> bool" where
  "token_char c =
     (c \<in> set ''!#$%&'*+.^_`|~0123456789ABCDEFGHIJKLMNOPQRSTUVWXYZabcdefghijklmnopqrstuvwxyz-'')"

definition is_token :: "string \<Rightarrow> bool" where
  "is_token s = (s \<noteq> [] \<and> list_all token_char s)"

text \<open>\<^verbatim>\<open>token "/" token\<close>, the form of a media type without its parameters.\<close>

definition is_media_type :: "string \<Rightarrow> bool" where
  "is_media_type s =
     (let major = takeWhile (\<lambda>c. c \<noteq> CHR ''/'') s;
          slash_minor = dropWhile (\<lambda>c. c \<noteq> CHR ''/'') s
      in is_token major \<and> slash_minor \<noteq> [] \<and> is_token (tl slash_minor))"

definition lower_char :: "char \<Rightarrow> char" where
  "lower_char c =
     (let n = (of_char c :: nat) in if 65 \<le> n \<and> n \<le> 90 then char_of (n + 32) else c)"

definition toLowerCase :: "string \<Rightarrow> string" where
  "toLowerCase s = map lower_char s"

text \<open>
  The character a string starts with, for the characters up to U+00FF: its code, its bytes
  and the rest of the string.
\<close>

definition next_char :: "string \<Rightarrow> (nat \<times> string \<times> string) option" where
  "next_char s =
     (case s of
        [] \<Rightarrow> None
      | c # cs \<Rightarrow>
          (let n = (of_char c :: nat) in
           if n < 128 then Some (n, [c], cs)
           else (case cs of
                   [] \<Rightarrow> None
                 | d # ds \<Rightarrow>
                     (let m = (of_char d :: nat) in
                      if 194 \<le> n \<and> n \<le> 195 \<and> 128 \<le> m \<and> m \<le> 191
                      then Some ((n - 192) * 64 + (m - 128), [c, d], ds)
                      else None))))"

text \<open>The characters of a quoted string: as they are, and after a backslash.\<close>

definition qdtext :: "nat \<Rightarrow> bool" where
  "qdtext n =
     (n = 11 \<or> n = 32 \<or> n = 33 \<or> (35 \<le> n \<and> n \<le> 91) \<or> (93 \<le> n \<and> n \<le> 126)
      \<or> (128 \<le> n \<and> n \<le> 255))"

definition quoted_pair_char :: "nat \<Rightarrow> bool" where
  "quoted_pair_char n = (n = 11 \<or> (32 \<le> n \<and> n \<le> 255))"

lemma next_char_shorter:
  assumes "next_char s = Some (n, bytes, rest)"
  shows "length rest < length s"
  using assms
  by (auto simp: next_char_def Let_def split: list.splits if_splits)

text \<open>
  The rest of a quoted string after its opening quote: the value without the backslashes
  of its quoted pairs, and the text after the closing quote.
\<close>

function quoted_rest :: "string \<Rightarrow> (string \<times> string) option" where
  "quoted_rest s =
     (case s of
        [] \<Rightarrow> None
      | c # cs \<Rightarrow>
          if c = DQ then Some ([], cs)
          else (case next_char (if c = BS then cs else s) of
                  None \<Rightarrow> None
                | Some (n, bytes, rest) \<Rightarrow>
                    if (if c = BS then quoted_pair_char n else qdtext n)
                    then (case quoted_rest rest of
                            None \<Rightarrow> None
                          | Some (v, after) \<Rightarrow> Some (bytes @ v, after))
                    else None))"
  by pat_completeness auto
termination
proof (relation "measure length")
  show "wf (measure length)" by simp
next
  fix s :: string and c cs x2 n y bytes rest
  assume s: "s = c # cs" and "c \<noteq> DQ"
    and nc: "next_char (if c = BS then cs else s) = Some x2"
    and x2: "(n, y) = x2" and y: "(bytes, rest) = y"
  from nc x2 y have "next_char (if c = BS then cs else s) = Some (n, bytes, rest)" by simp
  then have "length rest < length (if c = BS then cs else s)" by (rule next_char_shorter)
  then have "length rest < length s" using s by (simp split: if_splits)
  then show "(rest, s) \<in> measure length" by simp
qed

declare quoted_rest.simps [simp del]

text \<open>
  One parameter, \<^verbatim>\<open>; *(token) *= *("quoted string"|token) *\<close>, at the start of a string:
  its name in lower case, its value, and the text after it.
\<close>

definition skip_spaces :: "string \<Rightarrow> string" where
  "skip_spaces s = dropWhile (\<lambda>c. c = CHR '' '') s"

definition param_at :: "string \<Rightarrow> (string \<times> string \<times> string) option" where
  "param_at s =
     (case s of
        [] \<Rightarrow> None
      | c # cs \<Rightarrow>
          if c \<noteq> CHR '';'' then None
          else
            (let s1 = skip_spaces cs;
                 key = takeWhile token_char s1;
                 s2 = skip_spaces (dropWhile token_char s1)
             in if key = [] then None
                else (case s2 of
                        [] \<Rightarrow> None
                      | e # s3 \<Rightarrow>
                          if e \<noteq> CHR ''='' then None
                          else
                            (let s4 = skip_spaces s3
                             in case s4 of
                                  [] \<Rightarrow> None
                                | q # s5 \<Rightarrow>
                                    if q = DQ then
                                      (case quoted_rest s5 of
                                         None \<Rightarrow> None
                                       | Some (v, after) \<Rightarrow>
                                           Some (toLowerCase key, v, skip_spaces after))
                                    else
                                      (let v = takeWhile token_char s4
                                       in if v = [] then None
                                          else Some (toLowerCase key, v,
                                                     skip_spaces (dropWhile token_char s4)))))))"

text \<open>
  The parameters are kept by name; formatting writes them sorted by name. Here they are
  kept sorted, a later value for a name replacing the earlier one.
\<close>

fun str_less :: "string \<Rightarrow> string \<Rightarrow> bool" where
  "str_less [] [] = False"
| "str_less [] (b # bs) = True"
| "str_less (a # as) [] = False"
| "str_less (a # as) (b # bs) =
     ((of_char a :: nat) < of_char b \<or> (a = b \<and> str_less as bs))"

fun set_param :: "string \<Rightarrow> string \<Rightarrow> (string \<times> string) list \<Rightarrow> (string \<times> string) list" where
  "set_param k v [] = [(k, v)]"
| "set_param k v ((k', v') # ps) =
     (if k = k' then (k, v) # ps
      else if str_less k k' then (k, v) # (k', v') # ps
      else (k', v') # set_param k v ps)"


lemma quoted_rest_shorter:
  "quoted_rest s = Some (v, after) \<Longrightarrow> length after \<le> length s"
proof (induction s arbitrary: v after rule: quoted_rest.induct)
  case (1 s)
  show ?case
  proof (cases s)
    case Nil
    with "1.prems" show ?thesis by (simp add: quoted_rest.simps)
  next
    case (Cons c cs)
    show ?thesis
    proof (cases "c = DQ")
      case True
      with Cons "1.prems" show ?thesis by (simp add: quoted_rest.simps)
    next
      case False
      from "1.prems" Cons False obtain n bytes rest v' where
        nc: "next_char (if c = BS then cs else s) = Some (n, bytes, rest)"
        and cond: "if c = BS then quoted_pair_char n else qdtext n"
        and qr: "quoted_rest rest = Some (v', after)"
        by (auto simp: quoted_rest.simps [of "c # cs"] split: option.splits if_splits prod.splits)
      from nc have "length rest < length (if c = BS then cs else s)"
        by (rule next_char_shorter)
      then have r: "length rest < length s" using Cons by (simp split: if_splits)
      have "length after \<le> length rest"
        using "1.IH" [OF Cons False nc refl refl cond qr] .
      with r show ?thesis by simp
    qed
  qed
qed

lemma length_skip_spaces: "length (skip_spaces s) \<le> length s"
  unfolding skip_spaces_def by (rule length_dropWhile_le)

lemma param_at_shorter:
  assumes "param_at s = Some (k, v, rest)"
  shows "length rest < length s"
proof -
  from assms obtain c cs where s: "s = c # cs" and c: "c = CHR '';''"
    by (cases s) (auto simp: param_at_def split: if_splits)
  define s1 where "s1 = skip_spaces cs"
  define s2 where "s2 = skip_spaces (dropWhile token_char s1)"
  have l2: "length s2 \<le> length cs"
    using length_skip_spaces [of "dropWhile token_char s1"] length_dropWhile_le [of token_char s1]
      length_skip_spaces [of cs]
    by (simp add: s1_def s2_def)
  from assms s c obtain e s3 where s2: "s2 = e # s3" and e: "e = CHR ''=''"
    by (cases s2) (auto simp: param_at_def Let_def s1_def s2_def split: if_splits)
  define s4 where "s4 = skip_spaces s3"
  have l4: "length s4 \<le> length s3" unfolding s4_def by (rule length_skip_spaces)
  from assms s c s2 e obtain q s5 where s4: "s4 = q # s5"
    by (cases s4) (auto simp: param_at_def Let_def s1_def s2_def s4_def split: if_splits)
  have "length rest \<le> length s4"
  proof (cases "q = DQ")
    case True
    with assms s c s2 e s4 obtain after where
      qr: "quoted_rest s5 = Some (v, after)" and r: "rest = skip_spaces after"
      by (auto simp: param_at_def Let_def s1_def [symmetric] s2_def [symmetric]
          s4_def [symmetric] split: if_splits option.splits)
    from qr have "length after \<le> length s5" by (rule quoted_rest_shorter)
    with r s4 length_skip_spaces [of after] show ?thesis by simp
  next
    case False
    with assms s c s2 e s4 have "rest = skip_spaces (dropWhile token_char s4)"
      by (auto simp: param_at_def Let_def s1_def [symmetric] s2_def [symmetric]
          s4_def [symmetric] split: if_splits option.splits)
    then show ?thesis
      using length_skip_spaces [of "dropWhile token_char s4"]
        length_dropWhile_le [of token_char s4] by simp
  qed
  with l4 l2 s2 s show ?thesis by simp
qed

text \<open>
  The parameters after the media type: one after the other up to the end of the value; text
  that is not a parameter is a \<^verbatim>\<open>TypeError\<close>.
\<close>

function parse_params ::
    "string \<Rightarrow> (string \<times> string) list \<Rightarrow> string + (string \<times> string) list" where
  "parse_params s ps =
     (if s = [] then Inr ps
      else (case param_at s of
              None \<Rightarrow> Inl ''invalid parameter format''
            | Some (k, v, rest) \<Rightarrow> parse_params rest (set_param k v ps)))"
  by pat_completeness auto
termination
proof (relation "measure (\<lambda>(s, ps). length s)")
  show "wf (measure (\<lambda>(s, ps). length s))" by simp
next
  fix s :: string and ps :: "(string \<times> string) list" and x2 k y v rest
  assume "param_at s = Some x2" and "(k, y) = x2" and "(v, rest) = y"
  then have "param_at s = Some (k, v, rest)" by simp
  then have "length rest < length s" by (rule param_at_shorter)
  then show "((rest, set_param k v ps), (s, ps)) \<in> measure (\<lambda>(s, ps). length s)" by simp
qed

declare parse_params.simps [simp del]

text \<open>\<^verbatim>\<open>contentType.parse\<close>: the media type in lower case and its parameters.\<close>

definition content_type_parse :: "string \<Rightarrow> string + (string \<times> (string \<times> string) list)" where
  "content_type_parse header =
     (let type = trim (takeWhile (\<lambda>c. c \<noteq> CHR '';'') header)
      in if \<not> is_media_type type then Inl ''invalid media type''
         else (case parse_params (dropWhile (\<lambda>c. c \<noteq> CHR '';'') header) [] of
                 Inl e \<Rightarrow> Inl e
               | Inr ps \<Rightarrow> Inr (toLowerCase type, ps)))"

text \<open>
  \<^verbatim>\<open>contentType.format\<close>: a value that is a token is written as it is, any other value as
  a quoted string, in which only the vertical tab and the characters from U+0020 to U+007E
  and from U+0080 to U+00FF may occur.
\<close>

fun text_value :: "string \<Rightarrow> bool" where
  "text_value [] = True"
| "text_value (c # cs) =
     (let n = (of_char c :: nat) in
      if n = 11 \<or> (32 \<le> n \<and> n \<le> 126) then text_value cs
      else (case cs of
              [] \<Rightarrow> False
            | d # ds \<Rightarrow>
                194 \<le> n \<and> n \<le> 195 \<and> 128 \<le> (of_char d :: nat) \<and> (of_char d :: nat) \<le> 191
                \<and> text_value ds))"

definition qstring :: "string \<Rightarrow> string + string" where
  "qstring v =
     (if is_token v then Inr v
      else if v \<noteq> [] \<and> \<not> text_value v then Inl ''invalid parameter value''
      else Inr (DQ # concat (map (\<lambda>c. if c = DQ \<or> c = BS then [BS, c] else [c]) v) @ [DQ]))"

fun format_params :: "(string \<times> string) list \<Rightarrow> string + string" where
  "format_params [] = Inr []"
| "format_params ((k, v) # ps) =
     (case qstring v of
        Inl e \<Rightarrow> Inl e
      | Inr q \<Rightarrow>
          (case format_params ps of
             Inl e \<Rightarrow> Inl e
           | Inr r \<Rightarrow> Inr (''; '' @ k @ ''='' @ q @ r)))"

text \<open>\<^verbatim>\<open>setCharset(type, 'utf-8')\<close>; an empty type is returned as it is.\<close>

definition setCharset :: "string \<Rightarrow> string + string" where
  "setCharset type =
     (if type = [] then Inr type
      else (case content_type_parse type of
              Inl e \<Rightarrow> Inl e
            | Inr (t, ps) \<Rightarrow>
                (case format_params (set_param ''charset'' ''utf-8'' ps) of
                   Inl e \<Rightarrow> Inl e
                 | Inr r \<Rightarrow> Inr (t @ r))))"

subsection \<open>\<^verbatim>\<open>res.send\<close>\<close>

text \<open>
  A call either returns (\<open>Inr\<close>) or throws (\<open>Inl\<close>): an error carries its message, and
  the response object is in the state it had when the error was thrown.
\<close>

type_synonym attempt = "(string \<times> express_res) + express_res"

text \<open>
  The end of \<^verbatim>\<open>res.send\<close>: a response with status 204 or 304 loses \<^verbatim>\<open>Content-Type\<close>,
  \<^verbatim>\<open>Content-Length\<close> and its body, one with status 205 gets the length 0 and loses its
  body; any other is sent with the body.
\<close>

definition end_response :: "body \<Rightarrow> express_res \<Rightarrow> express_res" where
  "end_response chunk res =
     (if statusCode res = 204 \<or> statusCode res = 304 then
        res\<lparr>res_headers := (res_headers res)(''Content-Type'' := None, ''Content-Length'' := None),
            sent := Some (Str [])\<rparr>
      else if statusCode res = 205 then
        (res_set ''Content-Length'' ''0'' res)\<lparr>sent := Some (Str [])\<rparr>
      else res\<lparr>sent := Some chunk\<rparr>)"

text \<open>
  \<^verbatim>\<open>res.send(chunk)\<close>. When no \<^verbatim>\<open>Content-Type\<close> is set, a string gets the type of
  \<^verbatim>\<open>html\<close> and a buffer the type of \<^verbatim>\<open>bin\<close>. For a string the charset is written into the
  type, which is where the call can throw. Then \<^verbatim>\<open>Content-Length\<close> is set to the number of
  bytes of the body.
\<close>

definition res_send :: "body \<Rightarrow> express_res \<Rightarrow> attempt" where
  "res_send chunk res =
     (let res1 =
            (if truthy (res_headers res ''Content-Type'') then res
             else res_set ''Content-Type''
                    (case chunk of Str s \<Rightarrow> ''text/html'' | Buf b \<Rightarrow> ''application/octet-stream'')
                    res);
          len = (case chunk of Str s \<Rightarrow> length s | Buf b \<Rightarrow> length b)
      in case
           (case chunk of
              Buf b \<Rightarrow> Inr res1
            | Str s \<Rightarrow>
                (case res_headers res1 ''Content-Type'' of
                   None \<Rightarrow> Inr res1
                 | Some type \<Rightarrow>
                     (case setCharset type of
                        Inl e \<Rightarrow> Inl e
                      | Inr t \<Rightarrow> Inr (res_set ''Content-Type'' t res1))))
         of
           Inl e \<Rightarrow> Inl (e, res1)
         | Inr res2 \<Rightarrow> Inr (end_response chunk (res_set ''Content-Length'' (decimal len) res2)))"

text \<open>
  What is left of a call to \<^verbatim>\<open>res.send\<close> that nothing catches: the response object, on
  which nothing was sent when the call threw.
\<close>

definition uncaught :: "attempt \<Rightarrow> express_res" where
  "uncaught a = (case a of Inl (e, res) \<Rightarrow> res | Inr res \<Rightarrow> res)"


section \<open>The handler of \<^verbatim>\<open>/api/proxy-manifest\<close>\<close>

text \<open>
  What the handler reads of the request: \<^verbatim>\<open>req.query.url\<close> and \<^verbatim>\<open>req.headers.range\<close>,
  each absent (\<open>None\<close>) or a string.
\<close>

record request =
  query_url :: "string option"
  header_range :: "string option"

text \<open>
  What the handler reads of the upstream response: the status, \<^verbatim>\<open>headers.get\<close>, and the
  two ways of reading the body, \<^verbatim>\<open>text()\<close> and \<^verbatim>\<open>arrayBuffer()\<close>, each of which either
  rejects with an error (\<open>Inl\<close> its message) or yields the body. The status is that of a
  final response, a number of three digits from 200 on: \<^verbatim>\<open>fetch\<close> resolves with no other.
\<close>

record upstream_response =
  resp_status :: nat
  resp_header :: "string \<Rightarrow> string option"
  resp_text :: "string + string"
  resp_arrayBuffer :: "string + string"

text \<open>
  The platform the handler calls: \<^verbatim>\<open>fetch(url, {headers})\<close> and \<^verbatim>\<open>new URL(url)\<close>, each
  of which either throws (\<open>Inl\<close> the message of the error) or returns.
\<close>

record platform =
  fetch :: "string \<Rightarrow> (string \<times> string) list \<Rightarrow> string + upstream_response"
  new_URL :: "string \<Rightarrow> string + parsed_url"

text \<open>The calls to the upstream, in the order the handler makes them.\<close>

datatype effect = Fetch string "(string \<times> string) list" | ReadText | ReadArrayBuffer

text \<open>\<^verbatim>\<open>response.ok\<close> of the Fetch standard: a status from 200 to 299.\<close>

definition response_ok :: "upstream_response \<Rightarrow> bool" where
  "response_ok response = (200 \<le> resp_status response \<and> resp_status response \<le> 299)"

definition user_agent :: string where
  "user_agent = ''Mozilla/5.0 (Windows NT 10.0; Win64; x64) AppleWebKit/537.36 (KHTML, like Gecko) Chrome/91.0.4472.124 Safari/537.36''"

text \<open>The headers of \<^verbatim>\<open>fetchOptions\<close> (lines 46 to 57).\<close>

definition fetch_headers :: "request \<Rightarrow> (string \<times> string) list" where
  "fetch_headers req =
     [(''User-Agent'', user_agent), (''Accept'', ''*/*''), (''Accept-Language'', ''en-US,en;q=0.9'')]
       @ (case header_range req of
            None \<Rightarrow> []
          | Some r \<Rightarrow> if r \<noteq> [] then [(''Range'', r)] else [])"

text \<open>\<^verbatim>\<open>if (response.headers.get(name)) res.set(name, response.headers.get(name)!)\<close>\<close>

definition pass_header :: "string \<Rightarrow> upstream_response \<Rightarrow> express_res \<Rightarrow> express_res" where
  "pass_header name response res =
     (case resp_header response name of
        None \<Rightarrow> res
      | Some v \<Rightarrow> if v \<noteq> [] then res_set name v res else res)"

text \<open>The three headers passed through (lines 67 to 70), set on the fresh response object.\<close>

definition passed_headers :: "upstream_response \<Rightarrow> express_res" where
  "passed_headers response =
     pass_header ''Content-Length'' response
       (pass_header ''Accept-Ranges'' response
          (pass_header ''Content-Range'' response fresh_res))"

text \<open>
  The manifest branch (lines 74 to 105). An error thrown in the \<^verbatim>\<open>try\<close> block carries its
  message and the response object as it is then.
\<close>

definition send_manifest ::
    "platform \<Rightarrow> string \<Rightarrow> upstream_response \<Rightarrow> express_res \<Rightarrow> attempt \<times> effect list" where
  "send_manifest pf url response res =
     (case resp_text response of
        Inl message \<Rightarrow> (Inl (message, res), [ReadText])
      | Inr text \<Rightarrow>
          (case new_URL pf url of
             Inl message \<Rightarrow> (Inl (message, res), [ReadText])
           | Inr parsedUrl \<Rightarrow>
               (res_send (Str (rewrite_manifest parsedUrl text))
                  (res_set ''Access-Control-Allow-Origin'' ''*''
                     (res_set ''Content-Type'' ''application/vnd.apple.mpegurl'' res)),
                [ReadText])))"

text \<open>The branch of segments and other binary data (lines 108 to 114).\<close>

definition send_binary ::
    "string \<Rightarrow> upstream_response \<Rightarrow> express_res \<Rightarrow> attempt \<times> effect list" where
  "send_binary contentType response res =
     (let res' = res_set ''Cache-Control'' ''public, max-age=3600''
                   (res_set ''Access-Control-Allow-Origin'' ''*''
                      (res_set ''Content-Type'' contentType res))
      in case resp_arrayBuffer response of
           Inl message \<Rightarrow> (Inl (message, res'), [ReadArrayBuffer])
         | Inr buffer \<Rightarrow> (res_send (Buf buffer) res', [ReadArrayBuffer]))"

text \<open>The \<^verbatim>\<open>try\<close> block after a fetch that returned (lines 61 to 114).\<close>

definition on_response ::
    "platform \<Rightarrow> string \<Rightarrow> upstream_response \<Rightarrow> attempt \<times> effect list" where
  "on_response pf url response =
     (if \<not> response_ok response \<and> resp_status response \<noteq> 206 then
        (res_send (Str (''Target returned '' @ decimal (resp_status response)))
           (res_status (resp_status response) fresh_res), [])
      else
        (let contentType =
               (case resp_header response ''Content-Type'' of
                  None \<Rightarrow> []
                | Some v \<Rightarrow> if v \<noteq> [] then v else []);
             res = passed_headers response
         in if str_includes contentType ''mpegurl'' \<or> str_includes contentType ''apple.mpegurl''
               \<or> str_includes url ''.m3u8''
            then send_manifest pf url response res
            else send_binary contentType response res))"

text \<open>The \<^verbatim>\<open>try\<close> block (lines 46 to 114).\<close>

definition try_block :: "platform \<Rightarrow> request \<Rightarrow> string \<Rightarrow> attempt \<times> effect list" where
  "try_block pf req url =
     (let headers = fetch_headers req
      in case fetch pf url headers of
           Inl message \<Rightarrow> (Inl (message, fresh_res), [Fetch url headers])
         | Inr response \<Rightarrow>
             (let (outcome, reads) = on_response pf url response
              in (outcome, Fetch url headers # reads)))"

text \<open>
  The \<^verbatim>\<open>catch\<close> block (lines 115 to 118). Nothing catches an error that \<^verbatim>\<open>res.send\<close> throws
  here: the handler ends without a response.
\<close>

definition catch_error :: "string \<Rightarrow> express_res \<Rightarrow> express_res" where
  "catch_error message res = uncaught (res_send (Str message) (res_status 500 res))"

text \<open>
  The handler (lines 41 to 119): the response object as the handler leaves it, with the
  body it sent if it sent one, and the calls it made to the upstream.
\<close>

definition proxy_manifest :: "platform \<Rightarrow> request \<Rightarrow> express_res \<times> effect list" where
  "proxy_manifest pf req =
     (if \<not> truthy (query_url req) then
        (uncaught (res_send (Str ''URL required'') (res_status 400 fresh_res)), [])
      else
        (let (outcome, effects) = try_block pf req (the (query_url req))
         in (case outcome of
               Inl (message, res) \<Rightarrow> catch_error message res
             | Inr res \<Rightarrow> res,
             effects)))"

section \<open>The rules of the specification\<close>

text \<open>
  The specification resolves a reference by a three-way rule: a value that starts with
  \<^verbatim>\<open>http\<close> is used as it is, a value that starts with \<^verbatim>\<open>/\<close> is appended to the origin,
  any other value is appended to the base directory.
\<close>

definition resolve_reference :: "string \<Rightarrow> string \<Rightarrow> string \<Rightarrow> string" where
  "resolve_reference org baseDir v =
     (if startsWith v ''http'' then v
      else if startsWith v ''/'' then org @ v
      else baseDir @ v)"

text \<open>The directory part of a path: the path up to and including its last \<^verbatim>\<open>/\<close>, empty when it has none.\<close>

definition directory_of :: "string \<Rightarrow> string" where
  "directory_of path = rev (dropWhile (\<lambda>c. c \<noteq> CHR ''/'') (rev path))"

text \<open>
  A tag line with attributes \<^verbatim>\<open>URI="v"\<close>: each attribute is given with the text before
  it, and \<open>rest\<close> is the text after the last one.
\<close>

fun tag_line :: "(string \<times> string) list \<Rightarrow> string \<Rightarrow> string" where
  "tag_line [] rest = rest"
| "tag_line ((pre, v) # attrs) rest = pre @ uri_open @ v @ DQ # tag_line attrs rest"

text \<open>The characters \<^verbatim>\<open>encodeURIComponent\<close> can write.\<close>

definition uri_output_chars :: string where
  "uri_output_chars = ''ABCDEFGHIJKLMNOPQRSTUVWXYZabcdefghijklmnopqrstuvwxyz0123456789-_.!~*'()%''"

text \<open>The number a string of decimal digits stands for.\<close>

definition digits_value :: "string \<Rightarrow> nat" where
  "digits_value ds = foldl (\<lambda>a c. 10 * a + ((of_char c :: nat) - 48)) 0 ds"

section \<open>Inputs for the concrete checks\<close>

text \<open>
  The manifest of the examples is fetched from \<^verbatim>\<open>https://host/path/live.m3u8\<close>; these are
  the origin and the path \<^verbatim>\<open>new URL\<close> gives for it.
\<close>

definition live_url :: parsed_url where
  "live_url = \<lparr>origin = ''https://host'', pathname = ''/path/live.m3u8''\<rparr>"

definition live_request :: request where
  "live_request = \<lparr>query_url = Some ''https://host/path/live.m3u8'', header_range = None\<rparr>"

text \<open>An upstream response whose body can be read both ways.\<close>

definition upstream :: "nat \<Rightarrow> (string \<rightharpoonup> string) \<Rightarrow> string \<Rightarrow> upstream_response" where
  "upstream code hs b =
     \<lparr>resp_status = code, resp_header = hs, resp_text = Inr b, resp_arrayBuffer = Inr b\<rparr>"

text \<open>A platform on which every fetch returns the given response.\<close>

definition answering :: "upstream_response \<Rightarrow> platform" where
  "answering response =
     \<lparr>fetch = (\<lambda>url headers. Inr response), new_URL = (\<lambda>url. Inr live_url)\<rparr>"

text \<open>A platform on which every fetch fails, and a response whose body cannot be read.\<close>

definition unreachable :: platform where
  "unreachable = \<lparr>fetch = (\<lambda>url headers. Inl ''fetch failed''), new_URL = (\<lambda>url. Inr live_url)\<rparr>"

definition broken_body :: upstream_response where
  "broken_body = \<lparr>resp_status = 200, resp_header = Map.empty,
                   resp_text = Inl ''terminated'', resp_arrayBuffer = Inl ''terminated''\<rparr>"

text \<open>A manifest URL that carries a query string, answered with the MIME type of a segment.\<close>

definition token_request :: request where
  "token_request = \<lparr>query_url = Some ''https://host/path/live.m3u8?token=abc'', header_range = None\<rparr>"

definition ts_upstream :: upstream_response where
  "ts_upstream = upstream 200 [''Content-Type'' \<mapsto> ''video/mp2t''] ''segment.ts''"

text \<open>A range request for a segment, which the upstream honours with 206.\<close>

definition range_request :: request where
  "range_request =
     \<lparr>query_url = Some ''https://host/path/segment.ts'', header_range = Some ''bytes=0-1023''\<rparr>"

definition partial_upstream :: upstream_response where
  "partial_upstream =
     upstream 206
       [''Content-Type'' \<mapsto> ''video/mp2t'', ''Content-Range'' \<mapsto> ''bytes 0-1023/146515'',
        ''Accept-Ranges'' \<mapsto> ''bytes'', ''Content-Length'' \<mapsto> ''1024'']
       (replicate 1024 (CHR ''x''))"

text \<open>
  A segment whose \<^verbatim>\<open>Content-Type\<close> ends with a stray semicolon and whose body breaks off
  while it is read.
\<close>

definition segment_request :: request where
  "segment_request = \<lparr>query_url = Some ''https://host/path/segment.ts'', header_range = None\<rparr>"

definition broken_segment :: upstream_response where
  "broken_segment =
     \<lparr>resp_status = 200, resp_header = [''Content-Type'' \<mapsto> ''application/octet-stream;''],
      resp_text = Inl ''terminated'', resp_arrayBuffer = Inl ''terminated''\<rparr>"

text \<open>The key tag of the specification, and what it is rewritten to under \<^verbatim>\<open>https://host/path/live.m3u8\<close>.\<close>

definition CR :: char where
  "CR = CHR 0x0D"

definition key_line :: string where
  "key_line = ''#EXT-X-KEY:METHOD=AES-128,URI='' @ [DQ] @ ''key.bin'' @ [DQ]"

definition key_line_rewritten :: string where
  "key_line_rewritten =
     ''#EXT-X-KEY:METHOD=AES-128,URI='' @ [DQ]
       @ ''/api/proxy-manifest?url=https%3A%2F%2Fhost%2Fpath%2Fkey.bin'' @ [DQ]"

text \<open>A media tag with two \<^verbatim>\<open>URI="..."\<close> attributes, one relative and one root-relative.\<close>

definition media_line :: string where
  "media_line =
     ''#EXT-X-MEDIA:URI='' @ [DQ] @ ''a.m3u8'' @ [DQ] @ '',NAME='' @ [DQ] @ ''en'' @ [DQ]
       @ '',URI='' @ [DQ] @ ''/b.m3u8'' @ [DQ]"

text \<open>A manifest with an absolute reference, and one of comments and blank lines with CRLF line ends.\<close>

definition two_line_manifest :: string where
  "two_line_manifest = ''#EXTM3U'' @ [LF] @ ''http://other.host/x.ts''"

definition comment_manifest :: string where
  "comment_manifest = ''#EXTM3U'' @ [CR, LF, LF] @ ''  #EXT-X-ENDLIST'' @ [CR, LF]"

section \<open>Lines\<close>

lemma split_lines_not_Nil [simp]: "split_lines s \<noteq> []"
  by (induction s) (auto split: list.splits)

lemma join_lines_Cons_char: "join_lines ((c # l) # ls) = c # join_lines (l # ls)"
  by (cases ls) simp_all

lemma join_lines_Nil_Cons: "ls \<noteq> [] \<Longrightarrow> join_lines ([] # ls) = LF # join_lines ls"
  by (cases ls) simp_all

lemma join_split_lines: "join_lines (split_lines s) = s"
proof (induction s)
  case Nil
  then show ?case by simp
next
  case (Cons c cs)
  show ?case
  proof (cases "c = LF")
    case True
    then show ?thesis using Cons.IH by (simp add: join_lines_Nil_Cons)
  next
    case False
    obtain l ls where sp: "split_lines cs = l # ls"
      by (cases "split_lines cs") simp_all
    with False Cons.IH show ?thesis by (simp add: join_lines_Cons_char)
  qed
qed

lemma split_lines_single: "LF \<notin> set l \<Longrightarrow> split_lines l = [l]"
  by (induction l) auto

lemma split_lines_append: "LF \<notin> set l \<Longrightarrow> split_lines (l @ LF # s) = l # split_lines s"
  by (induction l) auto

lemma split_join_lines:
  assumes "ls \<noteq> []" and "\<forall>l \<in> set ls. LF \<notin> set l"
  shows "split_lines (join_lines ls) = ls"
  using assms
proof (induction ls rule: join_lines.induct)
  case 1
  then show ?case by simp
next
  case (2 l)
  then show ?case by (simp add: split_lines_single)
next
  case (3 l l' ls)
  then show ?case by (simp add: split_lines_append)
qed

lemma split_lines_no_LF: "l \<in> set (split_lines s) \<Longrightarrow> LF \<notin> set l"
proof (induction s arbitrary: l)
  case Nil
  then show ?case by simp
next
  case (Cons c cs)
  show ?case
  proof (cases "c = LF")
    case True
    with Cons show ?thesis by auto
  next
    case False
    obtain k ks where sp: "split_lines cs = k # ks"
      by (cases "split_lines cs") simp_all
    with False Cons.prems have "l = c # k \<or> l \<in> set ks" by simp
    then show ?thesis
    proof
      assume l: "l = c # k"
      have "k \<in> set (split_lines cs)" by (simp add: sp)
      then have "LF \<notin> set k" by (rule Cons.IH)
      with l False show ?thesis by auto
    next
      assume "l \<in> set ks"
      then have "l \<in> set (split_lines cs)" by (simp add: sp)
      then show ?thesis by (rule Cons.IH)
    qed
  qed
qed

section \<open>Properties of the percent-encoding\<close>

lemma hex_value_hex_digit: "a < 16 \<Longrightarrow> hex_value (hex_digit a) = Some a"
proof -
  have "\<forall>a \<in> set [0..<16]. hex_value (hex_digit a) = Some a" by code_simp
  then show "a < 16 \<Longrightarrow> hex_value (hex_digit a) = Some a" by simp
qed

lemma hex_digit_in: "hex_digit n \<in> set ''0123456789ABCDEF''"
  unfolding hex_digit_def by (rule nth_mem) simp

lemma unreserved_not_percent: "uri_unreserved c \<Longrightarrow> c \<noteq> CHR ''%''"
  by (auto simp: uri_unreserved_def)

lemma decode_percent_escape:
  "decodeURIComponent (percent_escape c @ s) = map_option ((#) c) (decodeURIComponent s)"
proof -
  let ?n = "of_char c :: nat"
  have "?n < 256" by (rule nat_of_char_less_256)
  then have lt: "?n div 16 < 16" by arith
  have "16 * (?n div 16) + ?n mod 16 = ?n" by simp
  then have "char_of (16 * (?n div 16) + ?n mod 16) = c" by simp
  then show ?thesis
    by (simp add: percent_escape_def hex_value_hex_digit lt)
qed

lemma decode_encode: "decodeURIComponent (encodeURIComponent s) = Some s"
proof (induction s)
  case Nil
  then show ?case by (simp add: encodeURIComponent_def)
next
  case (Cons c cs)
  have step: "encodeURIComponent (c # cs) =
                (if uri_unreserved c then [c] else percent_escape c) @ encodeURIComponent cs"
    by (simp add: encodeURIComponent_def)
  show ?case
  proof (cases "uri_unreserved c")
    case True
    then show ?thesis using Cons.IH unreserved_not_percent [OF True] by (simp add: step)
  next
    case False
    then show ?thesis using Cons.IH by (simp add: step decode_percent_escape)
  qed
qed

lemma encode_chars: "set (encodeURIComponent s) \<subseteq> set uri_output_chars"
proof (induction s)
  case Nil
  then show ?case by (simp add: encodeURIComponent_def)
next
  case (Cons c cs)
  have step: "encodeURIComponent (c # cs) =
                (if uri_unreserved c then [c] else percent_escape c) @ encodeURIComponent cs"
    by (simp add: encodeURIComponent_def)
  have hex: "set ''0123456789ABCDEF'' \<subseteq> set uri_output_chars"
    by (simp add: uri_output_chars_def)
  have "set (percent_escape c) \<subseteq> set uri_output_chars"
    using hex hex_digit_in [of "of_char c div 16"] hex_digit_in [of "of_char c mod 16"]
    by (auto simp: percent_escape_def uri_output_chars_def)
  moreover have "uri_unreserved c \<Longrightarrow> c \<in> set uri_output_chars"
    by (auto simp: uri_unreserved_def uri_output_chars_def)
  ultimately show ?case using Cons.IH by (auto simp: step)
qed

lemma encode_no_LF: "LF \<notin> set (encodeURIComponent s)"
proof -
  have "LF \<notin> set uri_output_chars" by (simp add: uri_output_chars_def LF_def)
  then show ?thesis using encode_chars by blast
qed

lemma encode_no_delimiter:
  "set (encodeURIComponent s) \<inter> {DQ, CHR ''&'', CHR ''#'', CHR ''+'', CHR ''='', CHR '' '', LF} = {}"
proof -
  have "set uri_output_chars \<inter> {DQ, CHR ''&'', CHR ''#'', CHR ''+'', CHR ''='', CHR '' '', LF} = {}"
    by (simp add: uri_output_chars_def LF_def DQ_def)
  then show ?thesis using encode_chars by blast
qed

section \<open>Properties of the string operations\<close>

lemma str_includes_iff: "str_includes s p \<longleftrightarrow> (\<exists>a b. s = a @ p @ b)"
proof (induction s)
  case Nil
  then show ?case by simp
next
  case (Cons c cs)
  have "startsWith (c # cs) p \<longleftrightarrow> (\<exists>b. c # cs = p @ b)"
    unfolding startsWith_def by (metis append_eq_conv_conj append_take_drop_id)
  moreover have "(\<exists>a b. c # cs = a @ p @ b) \<longleftrightarrow> (\<exists>b. c # cs = p @ b) \<or> (\<exists>a b. cs = a @ p @ b)"
  proof
    assume "\<exists>a b. c # cs = a @ p @ b"
    then obtain a b where ab: "c # cs = a @ p @ b" by blast
    show "(\<exists>b. c # cs = p @ b) \<or> (\<exists>a b. cs = a @ p @ b)"
    proof (cases a)
      case Nil
      with ab show ?thesis by auto
    next
      case (Cons x a')
      with ab have "cs = a' @ p @ b" by simp
      then show ?thesis by blast
    qed
  next
    assume "(\<exists>b. c # cs = p @ b) \<or> (\<exists>a b. cs = a @ p @ b)"
    then show "\<exists>a b. c # cs = a @ p @ b"
    proof
      assume "\<exists>b. c # cs = p @ b"
      then obtain b where "c # cs = [] @ p @ b" by auto
      then show ?thesis by blast
    next
      assume "\<exists>a b. cs = a @ p @ b"
      then obtain a b where "c # cs = (c # a) @ p @ b" by auto
      then show ?thesis by blast
    qed
  qed
  ultimately show ?case using Cons.IH by simp
qed

lemma apple_mpegurl_includes_mpegurl:
  assumes "str_includes s ''apple.mpegurl''"
  shows "str_includes s ''mpegurl''"
proof -
  from assms obtain a b where "s = a @ ''apple.mpegurl'' @ b"
    unfolding str_includes_iff by blast
  then have "s = (a @ ''apple.'') @ ''mpegurl'' @ b" by simp
  then show ?thesis unfolding str_includes_iff by blast
qed

lemma str_includes_startsWith: "startsWith s p \<Longrightarrow> str_includes s p"
  by (cases s) (simp_all add: startsWith_def)

lemma str_includes_appendI: "str_includes (a @ p @ b) p"
  by (induction a) (simp_all add: str_includes_startsWith startsWith_def)

lemma trimStart_subset: "set (trimStart s) \<subseteq> set s"
proof (induction s rule: trimStart.induct)
  case (1 s)
  show ?case
  proof (cases "leading_ws s = 0")
    case True
    then show ?thesis by (simp add: trimStart.simps)
  next
    case False
    then have "set (trimStart s) = set (trimStart (drop (leading_ws s) s))"
      by (simp add: trimStart.simps [of s])
    also have "\<dots> \<subseteq> set (drop (leading_ws s) s)" using False by (rule "1.IH")
    also have "\<dots> \<subseteq> set s" by (rule set_drop_subset)
    finally show ?thesis .
  qed
qed

lemma trimEnd_subset: "set (trimEnd s) \<subseteq> set s"
proof (induction s rule: trimEnd.induct)
  case (1 s)
  show ?case
  proof (cases "trailing_ws s = 0")
    case True
    then show ?thesis by (simp add: trimEnd.simps)
  next
    case False
    then have "set (trimEnd s) = set (trimEnd (take (length s - trailing_ws s) s))"
      by (simp add: trimEnd.simps [of s])
    also have "\<dots> \<subseteq> set (take (length s - trailing_ws s) s)" using False by (rule "1.IH")
    also have "\<dots> \<subseteq> set s" by (rule set_take_subset)
    finally show ?thesis .
  qed
qed

lemma trim_subset: "set (trim s) \<subseteq> set s"
  unfolding trim_def using trimEnd_subset trimStart_subset by blast

lemma last_index_from_absent: "c \<notin> set s \<Longrightarrow> last_index_from c s i found = found"
  by (induction s arbitrary: i) auto

lemma last_index_from_last:
  "c \<notin> set q \<Longrightarrow> last_index_from c (p @ c # q) i found = i + int (length p)"
  by (induction p arbitrary: i found) (auto simp: last_index_from_absent)

lemma directory_by_lastIndexOf:
  "substring0 path (lastIndexOf path (CHR ''/'') + 1) = directory_of path"
proof (cases "CHR ''/'' \<in> set path")
  case False
  then have "dropWhile (\<lambda>c. c \<noteq> CHR ''/'') (rev path) = []" by auto
  with False show ?thesis
    by (simp add: substring0_def lastIndexOf_def directory_of_def last_index_from_absent)
next
  case True
  then obtain p q where pq: "path = p @ CHR ''/'' # q" "CHR ''/'' \<notin> set q"
    by (meson split_list_last)
  have "dropWhile (\<lambda>c. c \<noteq> CHR ''/'') (rev q @ CHR ''/'' # rev p) = CHR ''/'' # rev p"
    using pq(2) by (induction q rule: rev_induct) auto
  then have "directory_of path = p @ [CHR ''/'']"
    by (simp add: directory_of_def pq(1))
  moreover have "substring0 path (lastIndexOf path (CHR ''/'') + 1) = p @ [CHR ''/'']"
    using pq by (simp add: substring0_def lastIndexOf_def last_index_from_last nat_add_distrib)
  ultimately show ?thesis by simp
qed

lemma baseUrl_is_directory: "baseUrl parsedUrl = origin parsedUrl @ directory_of (pathname parsedUrl)"
  by (simp add: baseUrl_def directory_by_lastIndexOf)

section \<open>Properties of the replacement of \<^verbatim>\<open>URI="..."\<close>\<close>

lemma startsWith_append_same [simp]: "startsWith (p @ s) p"
  by (simp add: startsWith_def)

lemma length_uri_open [simp]: "length uri_open = 5"
  by (simp add: uri_open_def)

lemma uri_open_nth_not_DQ: "j < 4 \<Longrightarrow> uri_open ! j \<noteq> DQ"
proof -
  have "\<forall>j \<in> set [0..<4]. uri_open ! j \<noteq> DQ" by code_simp
  then show "j < 4 \<Longrightarrow> uri_open ! j \<noteq> DQ" by simp
qed

lemma uri_open_last: "uri_open ! 4 = DQ"
  by (simp add: uri_open_def)

text \<open>An occurrence of the needle cannot start inside \<open>p\<close> and end inside a following needle.\<close>

lemma no_match_across:
  assumes "\<not> startsWith p uri_open" and "p \<noteq> []"
  shows "\<not> startsWith (p @ uri_open @ y) uri_open"
proof
  assume a: "startsWith (p @ uri_open @ y) uri_open"
  then have t: "take 5 (p @ uri_open @ y) = uri_open" by (simp add: startsWith_def)
  show False
  proof (cases "5 \<le> length p")
    case True
    with t have "take 5 p = uri_open" by simp
    with assms(1) show False by (simp add: startsWith_def)
  next
    case False
    then have k: "length p < 5" by simp
    from assms(2) have k0: "0 < length p" by simp
    have "(take 5 (p @ uri_open @ y)) ! 4 = (p @ uri_open @ y) ! 4" by (rule nth_take) simp
    also have "\<dots> = (uri_open @ y) ! (4 - length p)"
      using k by (simp add: nth_append)
    also have "\<dots> = uri_open ! (4 - length p)"
    proof -
      have "4 - length p < length uri_open" by simp
      then show ?thesis by (simp only: nth_append if_True)
    qed
    finally have "uri_open ! 4 = uri_open ! (4 - length p)" using t by simp
    moreover have "uri_open ! (4 - length p) \<noteq> DQ"
      using k0 by (intro uri_open_nth_not_DQ) simp
    ultimately show False using uri_open_last by simp
  qed
qed

lemma match_uri_None: "\<not> startsWith s uri_open \<Longrightarrow> match_uri s = None"
  by (simp add: match_uri_def)

lemma match_uri_attr:
  assumes "v \<noteq> []" and "DQ \<notin> set v"
  shows "match_uri (uri_open @ v @ DQ # t) = Some (v, t)"
proof -
  have tw: "takeWhile (\<lambda>c. c \<noteq> DQ) (v @ DQ # t) = v"
    using assms(2) by (induction v) auto
  have dw: "dropWhile (\<lambda>c. c \<noteq> DQ) (v @ DQ # t) = DQ # t"
    using assms(2) by (induction v) auto
  show ?thesis
    using assms(1) by (simp add: match_uri_def tw dw)
qed

lemma replace_uri_no_occurrence:
  "\<not> str_includes s uri_open \<Longrightarrow> replace_uri f s = s"
proof (induction s)
  case Nil
  then show ?case by (simp add: replace_uri.simps)
next
  case (Cons c cs)
  then have "match_uri (c # cs) = None" by (simp add: match_uri_None)
  with Cons show ?case by (simp add: replace_uri.simps)
qed

lemma replace_uri_first_attr:
  assumes "\<not> str_includes pre uri_open" and "v \<noteq> []" and "DQ \<notin> set v"
  shows "replace_uri f (pre @ uri_open @ v @ DQ # t) = pre @ f v @ replace_uri f t"
  using assms(1)
proof (induction pre)
  case Nil
  have "uri_open @ v @ DQ # t = hd uri_open # (tl uri_open @ v @ DQ # t)"
    by (simp add: uri_open_def)
  moreover have "match_uri (uri_open @ v @ DQ # t) = Some (v, t)"
    using assms(2,3) by (rule match_uri_attr)
  ultimately show ?case
    by (metis (no_types, lifting) append_Nil option.simps(5) prod.simps(2) replace_uri.simps(2))
next
  case (Cons c pre)
  then have ns: "\<not> startsWith (c # pre) uri_open" and ni: "\<not> str_includes pre uri_open"
    by simp_all
  from ns have "\<not> startsWith ((c # pre) @ uri_open @ v @ DQ # t) uri_open"
    by (rule no_match_across) simp
  then have "match_uri (c # pre @ uri_open @ v @ DQ # t) = None"
    by (simp add: match_uri_None)
  then show ?case using Cons.IH [OF ni] by (simp add: replace_uri.simps)
qed

lemma match_uri_rest_subset:
  assumes "match_uri s = Some (p1, rest)"
  shows "set rest \<subseteq> set s"
proof -
  from assms have r: "rest = tl (dropWhile (\<lambda>c. c \<noteq> DQ) (drop (length uri_open) s))"
    by (auto simp: match_uri_def Let_def split: if_splits)
  have "set rest \<subseteq> set (dropWhile (\<lambda>c. c \<noteq> DQ) (drop (length uri_open) s))"
    unfolding r by (metis list.sel(2) list.set_sel(2) subsetI)
  also have "\<dots> \<subseteq> set (drop (length uri_open) s)"
    by (meson set_dropWhileD subsetI)
  also have "\<dots> \<subseteq> set s" by (rule set_drop_subset)
  finally show ?thesis .
qed

lemma replace_uri_no_LF:
  "\<forall>v. LF \<notin> set (f v) \<Longrightarrow> LF \<notin> set s \<Longrightarrow> LF \<notin> set (replace_uri f s)"
proof (induction f s rule: replace_uri.induct)
  case (1 f)
  then show ?case by (simp add: replace_uri.simps)
next
  case (2 f c cs)
  show ?case
  proof (cases "match_uri (c # cs)")
    case None
    with 2 show ?thesis by (simp add: replace_uri.simps)
  next
    case (Some m)
    obtain p1 rest where m: "m = (p1, rest)" by (cases m)
    with Some have "set rest \<subseteq> set (c # cs)" using match_uri_rest_subset by blast
    with "2.prems" have "LF \<notin> set rest" by blast
    with "2.prems"(1) have "LF \<notin> set (replace_uri f rest)"
      by (rule "2.IH"(2) [OF Some m [symmetric]])
    with Some m "2.prems"(1) show ?thesis by (simp add: replace_uri.simps)
  qed
qed

lemma uri_replacer_resolve:
  "uri_replacer parsedUrl v =
     uri_open @ proxy_prefix
       @ encodeURIComponent
           (resolve_reference (origin parsedUrl)
              (origin parsedUrl @ directory_of (pathname parsedUrl)) v)
       @ [DQ]"
  by (simp add: uri_replacer_def resolve_reference_def baseUrl_is_directory)

lemma rewrite_line_media:
  assumes "trim line \<noteq> []" and "\<not> startsWith (trim line) ''#''"
  shows "rewrite_line parsedUrl line =
           proxy_prefix @ encodeURIComponent
             (if startsWith (trim line) ''http'' then trim line
              else if startsWith (trim line) ''/'' then origin parsedUrl @ trim line
              else baseUrl parsedUrl @ trim line)"
  using assms by (simp add: rewrite_line_def Let_def)

lemma rewrite_line_tag_uri:
  assumes "trim line = [] \<or> startsWith (trim line) ''#''" and "str_includes (trim line) uri_open"
  shows "rewrite_line parsedUrl line = replace_uri (uri_replacer parsedUrl) (trim line)"
  using assms by (simp add: rewrite_line_def Let_def)

lemma rewrite_line_unchanged:
  assumes "trim line = [] \<or> startsWith (trim line) ''#''" and "\<not> str_includes (trim line) uri_open"
  shows "rewrite_line parsedUrl line = line"
  using assms by (simp add: rewrite_line_def Let_def)

lemma replace_uri_tag_line:
  assumes "\<forall>(pre, v) \<in> set attrs. \<not> str_includes pre uri_open \<and> v \<noteq> [] \<and> DQ \<notin> set v"
    and "\<not> str_includes rest uri_open"
  shows "replace_uri (uri_replacer parsedUrl) (tag_line attrs rest) =
           tag_line
             (map (\<lambda>(pre, v). (pre, proxy_prefix @ encodeURIComponent
                     (resolve_reference (origin parsedUrl)
                        (origin parsedUrl @ directory_of (pathname parsedUrl)) v))) attrs)
             rest"
  using assms(1)
proof (induction attrs)
  case Nil
  then show ?case using assms(2) by (simp add: replace_uri_no_occurrence)
next
  case (Cons a attrs)
  obtain pre v where a: "a = (pre, v)" by (cases a)
  from Cons.prems a have h: "\<not> str_includes pre uri_open" "v \<noteq> []" "DQ \<notin> set v"
    and rest: "\<forall>(pre, v) \<in> set attrs. \<not> str_includes pre uri_open \<and> v \<noteq> [] \<and> DQ \<notin> set v"
    by auto
  let ?f = "uri_replacer parsedUrl"
  have "replace_uri ?f (tag_line (a # attrs) rest) =
          replace_uri ?f (pre @ uri_open @ v @ DQ # tag_line attrs rest)"
    by (simp add: a)
  also have "\<dots> = pre @ ?f v @ replace_uri ?f (tag_line attrs rest)"
    by (rule replace_uri_first_attr [OF h])
  also have "replace_uri ?f (tag_line attrs rest) =
          tag_line
             (map (\<lambda>(pre, v). (pre, proxy_prefix @ encodeURIComponent
                     (resolve_reference (origin parsedUrl)
                        (origin parsedUrl @ directory_of (pathname parsedUrl)) v))) attrs)
             rest"
    by (rule Cons.IH [OF rest])
  finally show ?case
    by (simp add: a uri_replacer_resolve [of parsedUrl v])
qed

lemma uri_replacer_no_LF: "LF \<notin> set (uri_replacer parsedUrl v)"
  using encode_no_LF
  by (simp add: uri_replacer_def Let_def uri_open_def proxy_prefix_def LF_def DQ_def)

lemma rewrite_line_no_LF:
  assumes "LF \<notin> set line"
  shows "LF \<notin> set (rewrite_line parsedUrl line)"
proof (cases "trim line = [] \<or> startsWith (trim line) ''#''")
  case True
  show ?thesis
  proof (cases "str_includes (trim line) uri_open")
    case False
    with True assms show ?thesis by (simp add: rewrite_line_unchanged)
  next
    case inc: True
    from assms trim_subset have "LF \<notin> set (trim line)" by blast
    then have "LF \<notin> set (replace_uri (uri_replacer parsedUrl) (trim line))"
      using uri_replacer_no_LF by (intro replace_uri_no_LF) simp_all
    with True inc show ?thesis by (simp add: rewrite_line_tag_uri)
  qed
next
  case False
  then have "rewrite_line parsedUrl line =
           proxy_prefix @ encodeURIComponent
             (if startsWith (trim line) ''http'' then trim line
              else if startsWith (trim line) ''/'' then origin parsedUrl @ trim line
              else baseUrl parsedUrl @ trim line)"
    by (intro rewrite_line_media) simp_all
  moreover have "LF \<notin> set proxy_prefix" by (simp add: proxy_prefix_def LF_def)
  ultimately show ?thesis using encode_no_LF by simp
qed

lemma lines_of_rewritten_manifest:
  "split_lines (rewrite_manifest parsedUrl text) = map (rewrite_line parsedUrl) (split_lines text)"
  unfolding rewrite_manifest_def
proof (rule split_join_lines)
  show "map (rewrite_line parsedUrl) (split_lines text) \<noteq> []" by simp
  show "\<forall>l \<in> set (map (rewrite_line parsedUrl) (split_lines text)). LF \<notin> set l"
    using split_lines_no_LF rewrite_line_no_LF by auto
qed


section \<open>Properties of the response object\<close>

lemma statusCode_res_set [simp]: "statusCode (res_set name v res) = statusCode res"
  by (simp add: res_set_def)

lemma sent_res_set [simp]: "sent (res_set name v res) = sent res"
  by (simp add: res_set_def)

lemma res_headers_res_set:
  "res_headers (res_set name v res) = (res_headers res)(name \<mapsto> stored_value name v)"
  by (simp add: res_set_def)

lemma stored_value_other: "name \<noteq> ''Content-Type'' \<Longrightarrow> stored_value name v = v"
  by (simp add: stored_value_def)

lemma stored_html: "stored_value ''Content-Type'' ''text/html'' = ''text/html; charset=utf-8''"
  by code_simp

lemma stored_html_charset:
  "stored_value ''Content-Type'' ''text/html; charset=utf-8'' = ''text/html; charset=utf-8''"
  by code_simp

lemma setCharset_html: "setCharset ''text/html; charset=utf-8'' = Inr ''text/html; charset=utf-8''"
  by code_simp

lemma stored_mpegurl:
  "stored_value ''Content-Type'' ''application/vnd.apple.mpegurl'' = ''application/vnd.apple.mpegurl''"
  by code_simp

lemma setCharset_mpegurl:
  "setCharset ''application/vnd.apple.mpegurl'' = Inr ''application/vnd.apple.mpegurl; charset=utf-8''"
  by code_simp

lemma stored_mpegurl_charset:
  "stored_value ''Content-Type'' ''application/vnd.apple.mpegurl; charset=utf-8'' =
     ''application/vnd.apple.mpegurl; charset=utf-8''"
  by code_simp

lemma end_response_ordinary:
  assumes "statusCode res \<noteq> 204" and "statusCode res \<noteq> 304" and "statusCode res \<noteq> 205"
  shows "end_response chunk res = res\<lparr>sent := Some chunk\<rparr>"
  using assms by (simp add: end_response_def)

lemma statusCode_end_response [simp]: "statusCode (end_response chunk res) = statusCode res"
  by (simp add: end_response_def)

lemma sent_end_response:
  "sent (end_response chunk res) =
     Some (if statusCode res = 204 \<or> statusCode res = 304 \<or> statusCode res = 205
           then Str [] else chunk)"
  by (simp add: end_response_def)

text \<open>A string sent while no \<^verbatim>\<open>Content-Type\<close> is set is sent as HTML in UTF-8.\<close>

lemma res_send_string_untyped:
  assumes "\<not> truthy (res_headers res ''Content-Type'')"
  shows "res_send (Str s) res =
           Inr (end_response (Str s)
                  (res\<lparr>res_headers := (res_headers res)
                         (''Content-Type'' \<mapsto> ''text/html; charset=utf-8'',
                          ''Content-Length'' \<mapsto> decimal (length s))\<rparr>))"
  using assms
  by (simp add: res_send_def res_set_def stored_html stored_html_charset setCharset_html
      stored_value_other)

text \<open>A string sent under a \<^verbatim>\<open>Content-Type\<close>: the charset is written into it, or the call throws.\<close>

lemma res_send_string_typed:
  assumes "res_headers res ''Content-Type'' = Some t" and "t \<noteq> []"
  shows "res_send (Str s) res =
           (case setCharset t of
              Inl e \<Rightarrow> Inl (e, res)
            | Inr t' \<Rightarrow>
                Inr (end_response (Str s)
                       (res_set ''Content-Length'' (decimal (length s))
                          (res_set ''Content-Type'' t' res))))"
  using assms by (simp add: res_send_def truthy_def split: sum.splits)

text \<open>A buffer is always sent.\<close>

lemma res_send_buffer:
  "res_send (Buf b) res =
     Inr (end_response (Buf b)
            (res_set ''Content-Length'' (decimal (length b))
               (if truthy (res_headers res ''Content-Type'') then res
                else res_set ''Content-Type'' ''application/octet-stream'' res)))"
  by (simp add: res_send_def)

section \<open>Decimal digits\<close>

lemma digit_code: "d < 10 \<Longrightarrow> (of_char (''0123456789'' ! d) :: nat) = 48 + d"
proof -
  have "\<forall>d \<in> set [0..<10]. (of_char (''0123456789'' ! d) :: nat) = 48 + d" by code_simp
  then show "d < 10 \<Longrightarrow> (of_char (''0123456789'' ! d) :: nat) = 48 + d" by simp
qed

lemma decimal_not_Nil: "decimal n \<noteq> []"
  by (subst decimal.simps) simp

lemma decimal_digits: "set (decimal n) \<subseteq> set ''0123456789''"
proof (induction n rule: decimal.induct)
  case (1 n)
  have d: "''0123456789'' ! (n mod 10) \<in> set ''0123456789''" by (rule nth_mem) simp
  show ?case
  proof (cases "n < 10")
    case True
    with d show ?thesis by (subst decimal.simps) simp
  next
    case False
    with d "1.IH" show ?thesis by (subst decimal.simps) simp
  qed
qed

lemma digits_value_snoc:
  "digits_value (ds @ [c]) = 10 * digits_value ds + ((of_char c :: nat) - 48)"
  by (simp add: digits_value_def)

lemma decimal_value: "digits_value (decimal n) = n"
proof (induction n rule: decimal.induct)
  case (1 n)
  show ?case
  proof (cases "n < 10")
    case True
    then have "digits_value (decimal n) = (of_char (''0123456789'' ! n) :: nat) - 48"
      by (subst decimal.simps) (simp add: digits_value_def)
    with True show ?thesis by (simp add: digit_code)
  next
    case False
    then have "decimal n = decimal (n div 10) @ [''0123456789'' ! (n mod 10)]"
      by (subst decimal.simps) simp
    then have "digits_value (decimal n) = 10 * (n div 10) + n mod 10"
      using "1.IH" [OF False] by (simp add: digits_value_snoc digit_code)
    then show ?thesis by simp
  qed
qed

lemma decimal_leading_zero: "hd (decimal n) = CHR ''0'' \<Longrightarrow> n = 0"
proof (induction n rule: decimal.induct)
  case (1 n)
  show ?case
  proof (cases "n < 10")
    case True
    with "1.prems" have "''0123456789'' ! n = CHR ''0''" by (subst (asm) decimal.simps) simp
    then have "(of_char (''0123456789'' ! n) :: nat) = 48" by simp
    with True show ?thesis by (simp add: digit_code)
  next
    case False
    then have "decimal n = decimal (n div 10) @ [''0123456789'' ! (n mod 10)]"
      by (subst decimal.simps) simp
    with "1.prems" have "hd (decimal (n div 10)) = CHR ''0''"
      by (simp add: hd_append decimal_not_Nil)
    then have "n div 10 = 0" using "1.IH" [OF False] by simp
    with False show ?thesis by simp
  qed
qed

section \<open>Properties of the handler\<close>

lemma on_response_ok:
  assumes "200 \<le> resp_status response \<and> resp_status response \<le> 299"
    and "contentType = (case resp_header response ''Content-Type'' of None \<Rightarrow> [] | Some v \<Rightarrow> v)"
  shows "on_response pf url response =
           (if str_includes contentType ''mpegurl'' \<or> str_includes url ''.m3u8''
            then send_manifest pf url response (passed_headers response)
            else send_binary contentType response (passed_headers response))"
proof -
  have ct: "(case resp_header response ''Content-Type'' of
               None \<Rightarrow> [] | Some v \<Rightarrow> if v \<noteq> [] then v else []) = contentType"
    using assms(2) by (simp split: option.splits)
  have ok: "\<not> (\<not> response_ok response \<and> resp_status response \<noteq> 206)"
    using assms(1) by (simp add: response_ok_def)
  have "on_response pf url response =
          (if str_includes contentType ''mpegurl'' \<or> str_includes contentType ''apple.mpegurl''
               \<or> str_includes url ''.m3u8''
           then send_manifest pf url response (passed_headers response)
           else send_binary contentType response (passed_headers response))"
    unfolding on_response_def ct Let_def using ok by (simp only: if_False)
  then show ?thesis using apple_mpegurl_includes_mpegurl by auto
qed

lemma proxy_manifest_fetched:
  assumes "query_url req = Some url" and "url \<noteq> []"
    and "fetch pf url (fetch_headers req) = Inr response"
  shows "proxy_manifest pf req =
           (case fst (on_response pf url response) of
              Inl (message, res) \<Rightarrow> catch_error message res
            | Inr res \<Rightarrow> res,
            Fetch url (fetch_headers req) # snd (on_response pf url response))"
  using assms
  by (simp add: proxy_manifest_def try_block_def truthy_def Let_def split: prod.splits)

lemma statusCode_pass_header [simp]: "statusCode (pass_header name response res) = statusCode res"
  by (simp add: pass_header_def split: option.splits)

lemma statusCode_passed_headers [simp]: "statusCode (passed_headers response) = 200"
  by (simp add: passed_headers_def fresh_res_def)

lemma sent_pass_header [simp]: "sent (pass_header name response res) = sent res"
  by (simp add: pass_header_def split: option.splits)

lemma sent_passed_headers [simp]: "sent (passed_headers response) = None"
  by (simp add: passed_headers_def fresh_res_def)

lemma res_headers_pass_header_same:
  "name \<noteq> ''Content-Type'' \<Longrightarrow> resp_header response name = Some v \<Longrightarrow> v \<noteq> [] \<Longrightarrow>
     res_headers (pass_header name response res) name = Some v"
  by (simp add: pass_header_def res_headers_res_set stored_value_other)

lemma res_headers_pass_header_other:
  "k \<noteq> name \<Longrightarrow> res_headers (pass_header name response res) k = res_headers res k"
  by (simp add: pass_header_def res_headers_res_set split: option.splits)

lemma passed_headers_no_type: "res_headers (passed_headers response) ''Content-Type'' = None"
  by (simp add: passed_headers_def res_headers_pass_header_other fresh_res_def)

text \<open>The answer to an upstream error, and to a request without \<^verbatim>\<open>url\<close>.\<close>

lemma plain_answer:
  assumes "code \<noteq> 204" and "code \<noteq> 304" and "code \<noteq> 205"
  shows "res_send (Str s) (res_status code fresh_res) =
           Inr \<lparr>statusCode = code,
                res_headers = [''Content-Type'' \<mapsto> ''text/html; charset=utf-8'',
                               ''Content-Length'' \<mapsto> decimal (length s)],
                sent = Some (Str s)\<rparr>"
proof -
  have "\<not> truthy (res_headers (res_status code fresh_res) ''Content-Type'')"
    by (simp add: res_status_def fresh_res_def truthy_def)
  then show ?thesis
    using assms
    by (simp add: res_send_string_untyped end_response_ordinary res_status_def fresh_res_def)
qed

lemma not_modified_answer:
  "res_send (Str s) (res_status 304 fresh_res) =
     Inr \<lparr>statusCode = 304, res_headers = Map.empty, sent = Some (Str [])\<rparr>"
proof -
  have "\<not> truthy (res_headers (res_status 304 fresh_res) ''Content-Type'')"
    by (simp add: res_status_def fresh_res_def truthy_def)
  then show ?thesis
    by (simp add: res_send_string_untyped end_response_def res_status_def fresh_res_def)
qed

lemma sent_send_manifest:
  assumes "statusCode res = 200"
    and "resp_text response = Inr text" and "new_URL pf url = Inr parsedUrl"
  shows "\<exists>res'. fst (send_manifest pf url response res) = Inr res'
           \<and> sent res' = Some (Str (rewrite_manifest parsedUrl text))
           \<and> statusCode res' = 200"
proof -
  let ?res = "res_set ''Access-Control-Allow-Origin'' ''*''
                (res_set ''Content-Type'' ''application/vnd.apple.mpegurl'' res)"
  have t: "res_headers ?res ''Content-Type'' = Some ''application/vnd.apple.mpegurl''"
    by (simp add: res_headers_res_set stored_mpegurl)
  have "res_send (Str (rewrite_manifest parsedUrl text)) ?res =
          Inr (end_response (Str (rewrite_manifest parsedUrl text))
                 (res_set ''Content-Length'' (decimal (length (rewrite_manifest parsedUrl text)))
                    (res_set ''Content-Type'' ''application/vnd.apple.mpegurl; charset=utf-8'' ?res)))"
    using res_send_string_typed [OF t] by (simp add: setCharset_mpegurl)
  with assms show ?thesis
    by (simp add: send_manifest_def sent_end_response)
qed

lemma sent_send_binary:
  assumes "statusCode res = 200" and "resp_arrayBuffer response = Inr buffer"
  shows "\<exists>res'. fst (send_binary contentType response res) = Inr res'
           \<and> sent res' = Some (Buf buffer) \<and> statusCode res' = 200"
  using assms
  by (simp add: send_binary_def Let_def res_send_buffer sent_end_response)

text \<open>What \<^verbatim>\<open>res.send\<close> leaves as it is: the status, and every header but its own two.\<close>

lemma statusCode_res_send:
  "res_send chunk res = Inr res' \<Longrightarrow> statusCode res' = statusCode res"
  "res_send chunk res = Inl (e, res') \<Longrightarrow> statusCode res' = statusCode res"
  by (auto simp: res_send_def Let_def split: body.splits option.splits sum.splits if_splits)

lemma res_headers_end_response:
  "k \<noteq> ''Content-Type'' \<Longrightarrow> k \<noteq> ''Content-Length'' \<Longrightarrow>
     res_headers (end_response chunk res) k = res_headers res k"
  by (simp add: end_response_def res_headers_res_set)

lemma res_headers_res_set_other:
  "k \<noteq> name \<Longrightarrow> res_headers (res_set name v res) k = res_headers res k"
  by (simp add: res_headers_res_set)

lemma res_headers_res_send:
  assumes "k \<noteq> ''Content-Type''" and "k \<noteq> ''Content-Length''"
  shows "res_send chunk res = Inr res' \<Longrightarrow> res_headers res' k = res_headers res k"
    and "res_send chunk res = Inl (e, res') \<Longrightarrow> res_headers res' k = res_headers res k"
  using assms
  by (auto simp: res_send_def Let_def res_headers_end_response res_headers_res_set_other
      split: body.splits option.splits sum.splits if_splits)

text \<open>
  The \<^verbatim>\<open>catch\<close> block answers with status 500 and the message, unless a \<^verbatim>\<open>Content-Type\<close>
  that is not a media type was set before the error: then its \<^verbatim>\<open>res.send\<close> throws, and
  nothing is sent.
\<close>

lemma catch_error_untyped:
  assumes "\<not> truthy (res_headers res ''Content-Type'')"
  shows "statusCode (catch_error message res) = 500"
    and "sent (catch_error message res) = Some (Str message)"
proof -
  have "\<not> truthy (res_headers (res_status 500 res) ''Content-Type'')"
    using assms by (simp add: res_status_def)
  then have "catch_error message res =
               end_response (Str message)
                 ((res_status 500 res)\<lparr>res_headers := (res_headers (res_status 500 res))
                     (''Content-Type'' \<mapsto> ''text/html; charset=utf-8'',
                      ''Content-Length'' \<mapsto> decimal (length message))\<rparr>)"
    by (simp add: catch_error_def res_send_string_untyped uncaught_def)
  then show "statusCode (catch_error message res) = 500"
    and "sent (catch_error message res) = Some (Str message)"
    by (simp_all add: sent_end_response res_status_def)
qed

lemma catch_error_typed:
  assumes "res_headers res ''Content-Type'' = Some t" and "t \<noteq> []"
    and "setCharset t = Inr t'"
  shows "statusCode (catch_error message res) = 500"
    and "sent (catch_error message res) = Some (Str message)"
proof -
  have "res_headers (res_status 500 res) ''Content-Type'' = Some t"
    using assms(1) by (simp add: res_status_def)
  from res_send_string_typed [OF this assms(2), of message]
  have "catch_error message res =
          end_response (Str message)
            (res_set ''Content-Length'' (decimal (length message))
               (res_set ''Content-Type'' t' (res_status 500 res)))"
    using assms(3) by (simp add: catch_error_def uncaught_def)
  then show "statusCode (catch_error message res) = 500"
    and "sent (catch_error message res) = Some (Str message)"
    by (simp_all add: sent_end_response res_status_def)
qed

lemma catch_error_throws:
  assumes "res_headers res ''Content-Type'' = Some t" and "t \<noteq> []"
    and "setCharset t = Inl e"
  shows "catch_error message res = res_status 500 res"
proof -
  have "res_headers (res_status 500 res) ''Content-Type'' = Some t"
    using assms(1) by (simp add: res_status_def)
  from res_send_string_typed [OF this assms(2), of message]
  show ?thesis using assms(3) by (simp add: catch_error_def uncaught_def)
qed

subsection \<open>The status\<close>

text \<open>No request is answered with status 206.\<close>

lemma statusCode_catch_error: "statusCode (catch_error message res) = 500"
proof (cases "res_send (Str message) (res_status 500 res)")
  case (Inl a)
  obtain e res' where a: "a = (e, res')" by (cases a)
  from statusCode_res_send(2) [OF Inl [unfolded a]] have "statusCode res' = 500"
    by (simp add: res_status_def)
  with Inl a show ?thesis by (simp add: catch_error_def uncaught_def)
next
  case (Inr res')
  from statusCode_res_send(1) [OF Inr] have "statusCode res' = 500"
    by (simp add: res_status_def)
  with Inr show ?thesis by (simp add: catch_error_def uncaught_def)
qed

lemma statusCode_send_manifest:
  "fst (send_manifest pf url response res) = Inr res' \<Longrightarrow> statusCode res' = statusCode res"
  by (auto simp: send_manifest_def split: sum.splits dest!: statusCode_res_send(1))

lemma statusCode_send_binary:
  "fst (send_binary contentType response res) = Inr res' \<Longrightarrow> statusCode res' = statusCode res"
  by (auto simp: send_binary_def Let_def split: sum.splits dest!: statusCode_res_send(1))

lemma statusCode_on_response:
  assumes "fst (on_response pf url response) = Inr res'"
  shows "statusCode res' \<noteq> 206"
proof (cases "\<not> response_ok response \<and> resp_status response \<noteq> 206")
  case True
  with assms have "res_send (Str (''Target returned '' @ decimal (resp_status response)))
                     (res_status (resp_status response) fresh_res) = Inr res'"
    by (simp add: on_response_def)
  from statusCode_res_send(1) [OF this] True show ?thesis by (simp add: res_status_def)
next
  case False
  with assms have "statusCode res' = statusCode (passed_headers response)"
    by (auto simp: on_response_def Let_def statusCode_send_manifest statusCode_send_binary
        simp del: statusCode_passed_headers split: if_splits)
  then show ?thesis by simp
qed

lemma status_never_206: "statusCode (fst (proxy_manifest pf req)) \<noteq> 206"
proof (cases "truthy (query_url req)")
  case False
  have "res_send (Str ''URL required'') (res_status 400 fresh_res) =
          Inr \<lparr>statusCode = 400,
               res_headers = [''Content-Type'' \<mapsto> ''text/html; charset=utf-8'',
                              ''Content-Length'' \<mapsto> decimal (length ''URL required'')],
               sent = Some (Str ''URL required'')\<rparr>"
    by (rule plain_answer) simp_all
  with False show ?thesis by (simp add: proxy_manifest_def uncaught_def)
next
  case True
  then obtain url where u: "query_url req = Some url" "url \<noteq> []"
    by (auto simp: truthy_def split: option.splits)
  show ?thesis
  proof (cases "fetch pf url (fetch_headers req)")
    case (Inl message)
    with u show ?thesis
      by (simp add: proxy_manifest_def try_block_def truthy_def statusCode_catch_error)
  next
    case (Inr response)
    have "statusCode (case fst (on_response pf url response) of
              Inl (message, res) \<Rightarrow> catch_error message res
            | Inr res \<Rightarrow> res) \<noteq> 206"
    proof (cases "fst (on_response pf url response)")
      case (Inl a)
      then show ?thesis by (simp add: statusCode_catch_error split: prod.splits)
    next
      case (Inr res')
      with statusCode_on_response [OF Inr] show ?thesis by simp
    qed
    with proxy_manifest_fetched [OF u Inr] show ?thesis by simp
  qed
qed

subsection \<open>The headers passed through\<close>

text \<open>
  What the handler passes through: the \<^verbatim>\<open>Range\<close> header of the request, and the
  \<^verbatim>\<open>Content-Range\<close> and \<^verbatim>\<open>Accept-Ranges\<close> headers of the response. \<^verbatim>\<open>Content-Length\<close> is
  copied as well, and then set by \<^verbatim>\<open>res.send\<close> to the length of the body it sends.
\<close>

lemma range_is_forwarded:
  "header_range req = Some r \<Longrightarrow> r \<noteq> [] \<Longrightarrow> (''Range'', r) \<in> set (fetch_headers req)"
  by (simp add: fetch_headers_def)

lemma passed_headers_lookup:
  assumes "resp_header response k = Some v" and "v \<noteq> []"
    and "k = ''Content-Range'' \<or> k = ''Accept-Ranges''"
  shows "res_headers (passed_headers response) k = Some v"
proof -
  have cr: "res_headers (passed_headers response) ''Content-Range'' = Some v"
    if "resp_header response ''Content-Range'' = Some v"
    unfolding passed_headers_def
    by (simp add: res_headers_pass_header_other res_headers_pass_header_same that assms(2))
  have ar: "res_headers (passed_headers response) ''Accept-Ranges'' = Some v"
    if "resp_header response ''Accept-Ranges'' = Some v"
    unfolding passed_headers_def
    by (simp add: res_headers_pass_header_other res_headers_pass_header_same that assms(2))
  from assms(3) show ?thesis using cr ar assms(1) by blast
qed

lemma res_headers_catch_error:
  assumes "k \<noteq> ''Content-Type''" and "k \<noteq> ''Content-Length''"
  shows "res_headers (catch_error message res) k = res_headers res k"
proof (cases "res_send (Str message) (res_status 500 res)")
  case (Inl a)
  obtain e res' where a: "a = (e, res')" by (cases a)
  from res_headers_res_send(2) [OF assms Inl [unfolded a]]
  have "res_headers res' k = res_headers res k" by (simp add: res_status_def)
  with Inl a show ?thesis by (simp add: catch_error_def uncaught_def)
next
  case (Inr res')
  from res_headers_res_send(1) [OF assms Inr]
  have "res_headers res' k = res_headers res k" by (simp add: res_status_def)
  with Inr show ?thesis by (simp add: catch_error_def uncaught_def)
qed

lemma res_headers_send_manifest:
  assumes "k \<noteq> ''Content-Type''" and "k \<noteq> ''Content-Length''"
    and "k \<noteq> ''Access-Control-Allow-Origin''"
  shows "fst (send_manifest pf url response res) = Inr res'
           \<Longrightarrow> res_headers res' k = res_headers res k"
    and "fst (send_manifest pf url response res) = Inl (e, res')
           \<Longrightarrow> res_headers res' k = res_headers res k"
  using assms
  by (auto simp: send_manifest_def res_headers_res_set_other split: sum.splits
      dest!: res_headers_res_send [OF assms(1,2)])

lemma res_headers_send_binary:
  assumes "k \<noteq> ''Content-Type''" and "k \<noteq> ''Content-Length''"
    and "k \<noteq> ''Access-Control-Allow-Origin''" and "k \<noteq> ''Cache-Control''"
  shows "fst (send_binary contentType response res) = Inr res'
           \<Longrightarrow> res_headers res' k = res_headers res k"
    and "fst (send_binary contentType response res) = Inl (e, res')
           \<Longrightarrow> res_headers res' k = res_headers res k"
  using assms
  by (auto simp: send_binary_def Let_def res_headers_res_set_other split: sum.splits
      dest!: res_headers_res_send [OF assms(1,2)])

lemma res_headers_outcome:
  assumes "k \<noteq> ''Content-Type''" and "k \<noteq> ''Content-Length''"
    and "\<And>res'. a = Inr res' \<Longrightarrow> res_headers res' k = v"
    and "\<And>e res'. a = Inl (e, res') \<Longrightarrow> res_headers res' k = v"
  shows "res_headers (case a of Inl (message, res) \<Rightarrow> catch_error message res
                      | Inr res \<Rightarrow> res) k = v"
proof (cases a)
  case (Inl b)
  obtain e res' where b: "b = (e, res')" by (cases b)
  from assms(4) [OF Inl [unfolded b]] Inl b show ?thesis
    by (simp add: res_headers_catch_error [OF assms(1,2)])
next
  case (Inr res')
  from assms(3) [OF Inr] Inr show ?thesis by simp
qed

lemma range_headers_are_copied:
  assumes "query_url req = Some url" and "url \<noteq> []"
    and "fetch pf url (fetch_headers req) = Inr response"
    and "200 \<le> resp_status response \<and> resp_status response \<le> 299"
    and "k = ''Content-Range'' \<or> k = ''Accept-Ranges''"
    and "resp_header response k = Some v" and "v \<noteq> []"
  shows "res_headers (fst (proxy_manifest pf req)) k = Some v"
proof -
  have p: "res_headers (passed_headers response) k = Some v"
    using assms(6,7,5) by (rule passed_headers_lookup)
  have k: "k \<noteq> ''Content-Type''" "k \<noteq> ''Content-Length''"
    "k \<noteq> ''Access-Control-Allow-Origin''" "k \<noteq> ''Cache-Control''"
    using assms(5) by auto
  have "res_headers (case fst (on_response pf url response) of
              Inl (message, res) \<Rightarrow> catch_error message res
            | Inr res \<Rightarrow> res) k = Some v"
  proof (rule res_headers_outcome [OF k(1,2)])
    fix res' assume "fst (on_response pf url response) = Inr res'"
    then show "res_headers res' k = Some v"
      unfolding on_response_ok [OF assms(4) refl]
      using res_headers_send_manifest(1) [OF k(1,2,3)] res_headers_send_binary(1) [OF k] p
      by (auto split: if_splits)
  next
    fix e res' assume "fst (on_response pf url response) = Inl (e, res')"
    then show "res_headers res' k = Some v"
      unfolding on_response_ok [OF assms(4) refl]
      using res_headers_send_manifest(2) [OF k(1,2,3)] res_headers_send_binary(2) [OF k] p
      by (auto split: if_splits)
  qed
  with proxy_manifest_fetched [OF assms(1-3)] show ?thesis by simp
qed

subsection \<open>The \<^verbatim>\<open>catch\<close> block\<close>

lemma stored_empty: "stored_value ''Content-Type'' [] = []"
  by code_simp

lemma stored_value_not_Nil: "v \<noteq> [] \<Longrightarrow> stored_value name v \<noteq> []"
  by (simp add: stored_value_def)

lemma binary_headers_type:
  "res_headers (res_set ''Cache-Control'' ''public, max-age=3600''
                  (res_set ''Access-Control-Allow-Origin'' ''*''
                     (res_set ''Content-Type'' contentType res))) ''Content-Type''
     = Some (stored_value ''Content-Type'' contentType)"
  by (simp add: res_headers_res_set)

text \<open>
  The four calls of the \<^verbatim>\<open>try\<close> block that can throw, each with the conditions under which
  the handler reaches it. An error of the first three is answered with status 500 and its
  message. An error of the fourth, \<^verbatim>\<open>arrayBuffer()\<close>, is thrown after the \<^verbatim>\<open>Content-Type\<close> of
  the upstream was copied: it is answered in the same way when that value is empty or a
  media type, and not at all when it is not.
\<close>

lemma caught_error_is_500:
  assumes "query_url req = Some url" and "url \<noteq> []"
    and "contentType = (case resp_header response ''Content-Type'' of None \<Rightarrow> [] | Some v \<Rightarrow> v)"
    and "manifest = (str_includes contentType ''mpegurl'' \<or> str_includes url ''.m3u8'')"
    and "ok = (200 \<le> resp_status response \<and> resp_status response \<le> 299)"
  shows "(fetch pf url (fetch_headers req) = Inl message
            \<longrightarrow> statusCode (fst (proxy_manifest pf req)) = 500
              \<and> sent (fst (proxy_manifest pf req)) = Some (Str message))
       \<and> (fetch pf url (fetch_headers req) = Inr response \<and> ok \<and> manifest
            \<and> resp_text response = Inl message
            \<longrightarrow> statusCode (fst (proxy_manifest pf req)) = 500
              \<and> sent (fst (proxy_manifest pf req)) = Some (Str message))
       \<and> (fetch pf url (fetch_headers req) = Inr response \<and> ok \<and> manifest
            \<and> resp_text response = Inr text \<and> new_URL pf url = Inl message
            \<longrightarrow> statusCode (fst (proxy_manifest pf req)) = 500
              \<and> sent (fst (proxy_manifest pf req)) = Some (Str message))
       \<and> (fetch pf url (fetch_headers req) = Inr response \<and> ok \<and> \<not> manifest
            \<and> resp_arrayBuffer response = Inl message
            \<and> (contentType = [] \<or> setCharset (stored_value ''Content-Type'' contentType) = Inr t)
            \<longrightarrow> statusCode (fst (proxy_manifest pf req)) = 500
              \<and> sent (fst (proxy_manifest pf req)) = Some (Str message))
       \<and> (fetch pf url (fetch_headers req) = Inr response \<and> ok \<and> \<not> manifest
            \<and> resp_arrayBuffer response = Inl message
            \<and> contentType \<noteq> [] \<and> setCharset (stored_value ''Content-Type'' contentType) = Inl e
            \<longrightarrow> statusCode (fst (proxy_manifest pf req)) = 500
              \<and> sent (fst (proxy_manifest pf req)) = None)"
proof -
  have fresh: "\<not> truthy (res_headers fresh_res ''Content-Type'')"
    by (simp add: fresh_res_def truthy_def)
  have passed: "\<not> truthy (res_headers (passed_headers response) ''Content-Type'')"
    by (simp add: passed_headers_no_type truthy_def)
  let ?binary = "res_set ''Cache-Control'' ''public, max-age=3600''
                   (res_set ''Access-Control-Allow-Origin'' ''*''
                      (res_set ''Content-Type'' contentType (passed_headers response)))"
  have s1: "statusCode (fst (proxy_manifest pf req)) = 500
              \<and> sent (fst (proxy_manifest pf req)) = Some (Str message)"
    if "fetch pf url (fetch_headers req) = Inl message"
  proof -
    from that assms(1,2) have "fst (proxy_manifest pf req) = catch_error message fresh_res"
      by (simp add: proxy_manifest_def try_block_def truthy_def)
    with catch_error_untyped [OF fresh, of message] show ?thesis by simp
  qed
  have s2: "statusCode (fst (proxy_manifest pf req)) = 500
              \<and> sent (fst (proxy_manifest pf req)) = Some (Str message)"
    if a: "fetch pf url (fetch_headers req) = Inr response \<and> ok \<and> manifest
             \<and> (resp_text response = Inl message
                \<or> resp_text response = Inr text \<and> new_URL pf url = Inl message)"
  proof -
    from a have "on_response pf url response =
                   send_manifest pf url response (passed_headers response)"
      using on_response_ok [of response contentType pf url] assms(3-5) by simp
    with a have "fst (proxy_manifest pf req) = catch_error message (passed_headers response)"
      using proxy_manifest_fetched [OF assms(1,2), of pf response]
      by (auto simp: send_manifest_def)
    with catch_error_untyped [OF passed, of message] show ?thesis by simp
  qed
  have binary: "fst (proxy_manifest pf req) = catch_error message ?binary"
    if a: "fetch pf url (fetch_headers req) = Inr response \<and> ok \<and> \<not> manifest
             \<and> resp_arrayBuffer response = Inl message"
  proof -
    from a have "on_response pf url response =
                   send_binary contentType response (passed_headers response)"
      using on_response_ok [of response contentType pf url] assms(3-5) by simp
    with a show ?thesis
      using proxy_manifest_fetched [OF assms(1,2), of pf response]
      by (simp add: send_binary_def Let_def)
  qed
  have s4: "statusCode (fst (proxy_manifest pf req)) = 500
              \<and> sent (fst (proxy_manifest pf req)) = Some (Str message)"
    if a: "fetch pf url (fetch_headers req) = Inr response \<and> ok \<and> \<not> manifest
             \<and> resp_arrayBuffer response = Inl message"
      and t: "contentType = [] \<or> setCharset (stored_value ''Content-Type'' contentType) = Inr t"
  proof (cases "contentType = []")
    case True
    then have "\<not> truthy (res_headers ?binary ''Content-Type'')"
      unfolding binary_headers_type by (simp add: stored_empty truthy_def)
    from catch_error_untyped [OF this, of message] binary [OF a] show ?thesis by simp
  next
    case False
    with t have c: "setCharset (stored_value ''Content-Type'' contentType) = Inr t" by simp
    from catch_error_typed [OF binary_headers_type stored_value_not_Nil [OF False] c, of message]
      binary [OF a]
    show ?thesis by simp
  qed
  have s5: "statusCode (fst (proxy_manifest pf req)) = 500
              \<and> sent (fst (proxy_manifest pf req)) = None"
    if a: "fetch pf url (fetch_headers req) = Inr response \<and> ok \<and> \<not> manifest
             \<and> resp_arrayBuffer response = Inl message"
      and n: "contentType \<noteq> []"
      and c: "setCharset (stored_value ''Content-Type'' contentType) = Inl e"
  proof -
    from catch_error_throws [OF binary_headers_type stored_value_not_Nil [OF n] c, of message]
      binary [OF a]
    have "fst (proxy_manifest pf req) = res_status 500 ?binary" by simp
    then show ?thesis by (simp add: res_status_def)
  qed
  from s1 s2 s4 s5 show ?thesis by blast
qed

lemma caught_error_is_500_example:
  "(statusCode (fst (proxy_manifest unreachable live_request)) = 500
      \<and> sent (fst (proxy_manifest unreachable live_request)) = Some (Str ''fetch failed''))
   \<and> (statusCode (fst (proxy_manifest (answering broken_body) live_request)) = 500
      \<and> sent (fst (proxy_manifest (answering broken_body) live_request)) = Some (Str ''terminated''))"
  by code_simp

section \<open>Resolving and wrapping references\<close>

text \<open>
  C1. A reference is resolved by the three-way rule of \<^const>\<open>resolve_reference\<close>, with the
  origin of the target URL and, as base directory, the origin followed by the path of the
  target URL up to and including its last \<^verbatim>\<open>/\<close>. The rule is applied to the trimmed text
  of a media reference line, and to the quoted value of a \<^verbatim>\<open>URI="..."\<close> attribute of a tag
  line (shown for the first attribute of the line, after any text \<open>pre\<close> without
  \<^verbatim>\<open>URI="\<close>; the attributes after it are rewritten by the same callback).
\<close>

theorem references_resolve_by_three_way_rule:
  assumes "base = origin parsedUrl @ directory_of (pathname parsedUrl)"
  shows "(trim line \<noteq> [] \<and> \<not> startsWith (trim line) ''#''
            \<longrightarrow> rewrite_line parsedUrl line =
                  proxy_prefix @ encodeURIComponent
                    (resolve_reference (origin parsedUrl) base (trim line)))
       \<and> ((trim line = [] \<or> startsWith (trim line) ''#'')
            \<and> trim line = pre @ uri_open @ v @ DQ # post
            \<and> \<not> str_includes pre uri_open \<and> v \<noteq> [] \<and> DQ \<notin> set v
            \<longrightarrow> rewrite_line parsedUrl line =
                  pre @ uri_open @ proxy_prefix
                    @ encodeURIComponent (resolve_reference (origin parsedUrl) base v)
                    @ DQ # replace_uri (uri_replacer parsedUrl) post)"
proof (intro conjI impI)
  assume "trim line \<noteq> [] \<and> \<not> startsWith (trim line) ''#''"
  then show "rewrite_line parsedUrl line =
                  proxy_prefix @ encodeURIComponent
                    (resolve_reference (origin parsedUrl) base (trim line))"
    by (simp add: rewrite_line_media resolve_reference_def baseUrl_is_directory assms)
next
  assume a: "(trim line = [] \<or> startsWith (trim line) ''#'')
            \<and> trim line = pre @ uri_open @ v @ DQ # post
            \<and> \<not> str_includes pre uri_open \<and> v \<noteq> [] \<and> DQ \<notin> set v"
  then have t: "trim line = pre @ uri_open @ v @ DQ # post" by blast
  have inc: "str_includes (trim line) uri_open"
    unfolding t by (rule str_includes_appendI)
  from a have "trim line = [] \<or> startsWith (trim line) ''#''" by blast
  then have "rewrite_line parsedUrl line = replace_uri (uri_replacer parsedUrl) (trim line)"
    using inc by (rule rewrite_line_tag_uri)
  then have "rewrite_line parsedUrl line =
                 replace_uri (uri_replacer parsedUrl) (pre @ uri_open @ v @ DQ # post)"
    unfolding t .
  also have "\<dots> = pre @ uri_replacer parsedUrl v @ replace_uri (uri_replacer parsedUrl) post"
    using a by (intro replace_uri_first_attr) simp_all
  finally show "rewrite_line parsedUrl line =
                  pre @ uri_open @ proxy_prefix
                    @ encodeURIComponent (resolve_reference (origin parsedUrl) base v)
                    @ DQ # replace_uri (uri_replacer parsedUrl) post"
    by (simp add: uri_replacer_resolve [of parsedUrl v] assms)
qed

text \<open>
  The examples of the specification: \<^verbatim>\<open>segment.ts\<close> is resolved against the directory,
  \<^verbatim>\<open>/seg/1.ts\<close> against the origin, and \<^verbatim>\<open>key.bin\<close> inside the key tag against the directory.
\<close>

theorem references_resolve_by_three_way_rule_witness:
  "rewrite_line live_url ''segment.ts'' =
     ''/api/proxy-manifest?url=https%3A%2F%2Fhost%2Fpath%2Fsegment.ts''
   \<and> rewrite_line live_url ''/seg/1.ts'' =
     ''/api/proxy-manifest?url=https%3A%2F%2Fhost%2Fseg%2F1.ts''
   \<and> rewrite_line live_url key_line = key_line_rewritten"
proof -
  have b: "''https://host/path/'' = origin live_url @ directory_of (pathname live_url)"
    by code_simp
  note rule = references_resolve_by_three_way_rule [OF b]
  have m1: "trim ''segment.ts'' \<noteq> [] \<and> \<not> startsWith (trim ''segment.ts'') ''#''"
    by code_simp
  have e1: "proxy_prefix @ encodeURIComponent
              (resolve_reference (origin live_url) ''https://host/path/'' (trim ''segment.ts'')) =
            ''/api/proxy-manifest?url=https%3A%2F%2Fhost%2Fpath%2Fsegment.ts''"
    by code_simp
  have m2: "trim ''/seg/1.ts'' \<noteq> [] \<and> \<not> startsWith (trim ''/seg/1.ts'') ''#''"
    by code_simp
  have e2: "proxy_prefix @ encodeURIComponent
              (resolve_reference (origin live_url) ''https://host/path/'' (trim ''/seg/1.ts'')) =
            ''/api/proxy-manifest?url=https%3A%2F%2Fhost%2Fseg%2F1.ts''"
    by code_simp
  have m3: "(trim key_line = [] \<or> startsWith (trim key_line) ''#'')
            \<and> trim key_line = ''#EXT-X-KEY:METHOD=AES-128,'' @ uri_open @ ''key.bin'' @ DQ # []
            \<and> \<not> str_includes ''#EXT-X-KEY:METHOD=AES-128,'' uri_open
            \<and> ''key.bin'' \<noteq> [] \<and> DQ \<notin> set ''key.bin''"
    by code_simp
  have e3: "''#EXT-X-KEY:METHOD=AES-128,'' @ uri_open @ proxy_prefix
              @ encodeURIComponent
                  (resolve_reference (origin live_url) ''https://host/path/'' ''key.bin'')
              @ DQ # replace_uri (uri_replacer live_url) [] = key_line_rewritten"
    by code_simp
  have r1: "rewrite_line live_url ''segment.ts'' =
     ''/api/proxy-manifest?url=https%3A%2F%2Fhost%2Fpath%2Fsegment.ts''"
    using rule [where line = "''segment.ts''", THEN conjunct1, THEN mp, OF m1]
    unfolding e1 .
  have r2: "rewrite_line live_url ''/seg/1.ts'' =
     ''/api/proxy-manifest?url=https%3A%2F%2Fhost%2Fseg%2F1.ts''"
    using rule [where line = "''/seg/1.ts''", THEN conjunct1, THEN mp, OF m2]
    unfolding e2 .
  have r3: "rewrite_line live_url key_line = key_line_rewritten"
    using rule [where line = key_line and pre = "''#EXT-X-KEY:METHOD=AES-128,''"
        and v = "''key.bin''" and post = "[]", THEN conjunct2, THEN mp, OF m3]
    unfolding e3 .
  from r1 r2 r3 show ?thesis by blast
qed

text \<open>
  C2. A line of the manifest that, trimmed, is not empty and does not start with \<^verbatim>\<open>#\<close> is
  replaced as a whole: the line at the same position of the rewritten manifest is
  \<^verbatim>\<open>/api/proxy-manifest?url=\<close> followed by the percent-encoded absolute URL, also when the
  reference is absolute already (then the URL is the trimmed line itself). The rewritten
  manifest has as many lines as the manifest.
\<close>

theorem media_line_is_replaced_whole:
  assumes "i < length (split_lines text)"
    and "trimmed = trim (split_lines text ! i)"
    and "trimmed \<noteq> []" and "\<not> startsWith trimmed ''#''"
  shows "length (split_lines (rewrite_manifest parsedUrl text)) = length (split_lines text)
       \<and> split_lines (rewrite_manifest parsedUrl text) ! i =
           proxy_prefix @ encodeURIComponent
             (if startsWith trimmed ''http'' then trimmed
              else if startsWith trimmed ''/'' then origin parsedUrl @ trimmed
              else baseUrl parsedUrl @ trimmed)"
proof -
  have "split_lines (rewrite_manifest parsedUrl text) ! i =
          rewrite_line parsedUrl (split_lines text ! i)"
    using assms(1) by (simp add: lines_of_rewritten_manifest)
  moreover have "rewrite_line parsedUrl (split_lines text ! i) =
           proxy_prefix @ encodeURIComponent
             (if startsWith trimmed ''http'' then trimmed
              else if startsWith trimmed ''/'' then origin parsedUrl @ trimmed
              else baseUrl parsedUrl @ trimmed)"
    unfolding assms(2) using assms(3,4) [unfolded assms(2)] by (rule rewrite_line_media)
  ultimately show ?thesis by (simp add: lines_of_rewritten_manifest)
qed

theorem media_line_is_replaced_whole_witness:
  "split_lines two_line_manifest = [''#EXTM3U'', ''http://other.host/x.ts'']
   \<and> split_lines (rewrite_manifest live_url two_line_manifest) ! 1 =
       ''/api/proxy-manifest?url=http%3A%2F%2Fother.host%2Fx.ts''"
proof -
  have l: "split_lines two_line_manifest = [''#EXTM3U'', ''http://other.host/x.ts'']"
    by code_simp
  have h1: "1 < length (split_lines two_line_manifest)" unfolding l by simp
  have h2: "''http://other.host/x.ts'' = trim (split_lines two_line_manifest ! 1)"
    by code_simp
  have h3: "''http://other.host/x.ts'' \<noteq> []" by simp
  have h4: "\<not> startsWith ''http://other.host/x.ts'' ''#''" by code_simp
  have e: "proxy_prefix @ encodeURIComponent
             (if startsWith ''http://other.host/x.ts'' ''http'' then ''http://other.host/x.ts''
              else if startsWith ''http://other.host/x.ts'' ''/''
                then origin live_url @ ''http://other.host/x.ts''
              else baseUrl live_url @ ''http://other.host/x.ts'') =
           ''/api/proxy-manifest?url=http%3A%2F%2Fother.host%2Fx.ts''"
    by code_simp
  have "split_lines (rewrite_manifest live_url two_line_manifest) ! 1 =
       ''/api/proxy-manifest?url=http%3A%2F%2Fother.host%2Fx.ts''"
    using media_line_is_replaced_whole [OF h1 h2 h3 h4, of live_url, THEN conjunct2]
    unfolding e .
  with l show ?thesis by blast
qed

section \<open>Tag lines\<close>

text \<open>
  C3, as amended. A tag line whose trimmed text is a sequence of attributes \<^verbatim>\<open>URI="v"\<close>
  (each \<open>v\<close> not empty and without a double quote), the text before each and after the last
  without \<^verbatim>\<open>URI="\<close>, is rewritten to its trimmed text with every \<open>v\<close> replaced by the
  proxy path of its resolved URL and everything else kept: the white space around the
  line is dropped. A tag line or blank line without \<^verbatim>\<open>URI="\<close> is returned as it is, white
  space included. A rewritten line never contains a line feed.
\<close>

theorem tag_line_rewrites_only_uri_values:
  "((trim line = [] \<or> startsWith (trim line) ''#'')
      \<and> attrs \<noteq> [] \<and> trim line = tag_line attrs rest
      \<and> (\<forall>(pre, v) \<in> set attrs. \<not> str_includes pre uri_open \<and> v \<noteq> [] \<and> DQ \<notin> set v)
      \<and> \<not> str_includes rest uri_open
      \<longrightarrow> rewrite_line parsedUrl line =
            tag_line
              (map (\<lambda>(pre, v). (pre, proxy_prefix @ encodeURIComponent
                      (resolve_reference (origin parsedUrl)
                         (origin parsedUrl @ directory_of (pathname parsedUrl)) v))) attrs)
              rest)
   \<and> ((trim line = [] \<or> startsWith (trim line) ''#'') \<and> \<not> str_includes (trim line) uri_open
      \<longrightarrow> rewrite_line parsedUrl line = line)
   \<and> (LF \<notin> set line \<longrightarrow> LF \<notin> set (rewrite_line parsedUrl line))"
proof (intro conjI impI)
  assume a: "(trim line = [] \<or> startsWith (trim line) ''#'')
      \<and> attrs \<noteq> [] \<and> trim line = tag_line attrs rest
      \<and> (\<forall>(pre, v) \<in> set attrs. \<not> str_includes pre uri_open \<and> v \<noteq> [] \<and> DQ \<notin> set v)
      \<and> \<not> str_includes rest uri_open"
  then have t: "trim line = tag_line attrs rest" by blast
  from a obtain pre v more where attrs: "attrs = (pre, v) # more"
    by (cases attrs) auto
  have inc: "str_includes (trim line) uri_open"
    unfolding t attrs tag_line.simps by (rule str_includes_appendI)
  from a have "trim line = [] \<or> startsWith (trim line) ''#''" by blast
  then have "rewrite_line parsedUrl line = replace_uri (uri_replacer parsedUrl) (trim line)"
    using inc by (rule rewrite_line_tag_uri)
  also have "\<dots> = replace_uri (uri_replacer parsedUrl) (tag_line attrs rest)"
    unfolding t ..
  also have "\<dots> = tag_line
              (map (\<lambda>(pre, v). (pre, proxy_prefix @ encodeURIComponent
                      (resolve_reference (origin parsedUrl)
                         (origin parsedUrl @ directory_of (pathname parsedUrl)) v))) attrs)
              rest"
    using a by (intro replace_uri_tag_line) blast+
  finally show "rewrite_line parsedUrl line =
            tag_line
              (map (\<lambda>(pre, v). (pre, proxy_prefix @ encodeURIComponent
                      (resolve_reference (origin parsedUrl)
                         (origin parsedUrl @ directory_of (pathname parsedUrl)) v))) attrs)
              rest" .
next
  assume "(trim line = [] \<or> startsWith (trim line) ''#'') \<and> \<not> str_includes (trim line) uri_open"
  then show "rewrite_line parsedUrl line = line"
    by (simp add: rewrite_line_unchanged)
next
  assume "LF \<notin> set line"
  then show "LF \<notin> set (rewrite_line parsedUrl line)" by (rule rewrite_line_no_LF)
qed

theorem tag_line_rewrites_only_uri_values_witness:
  "rewrite_line live_url (key_line @ [CR]) =
     tag_line [(''#EXT-X-KEY:METHOD=AES-128,'',
                ''/api/proxy-manifest?url=https%3A%2F%2Fhost%2Fpath%2Fkey.bin'')] []
   \<and> rewrite_line live_url (''  '' @ media_line) =
     tag_line [(''#EXT-X-MEDIA:'', ''/api/proxy-manifest?url=https%3A%2F%2Fhost%2Fpath%2Fa.m3u8''),
               ('',NAME='' @ [DQ] @ ''en'' @ [DQ] @ '','',
                ''/api/proxy-manifest?url=https%3A%2F%2Fhost%2Fb.m3u8'')] []
   \<and> rewrite_line live_url (''#EXT-X-ENDLIST'' @ [CR]) = ''#EXT-X-ENDLIST'' @ [CR]
   \<and> LF \<notin> set (rewrite_line live_url (key_line @ [CR]))"
proof -
  let ?two = "[(''#EXT-X-MEDIA:'', ''a.m3u8''),
               ('',NAME='' @ [DQ] @ ''en'' @ [DQ] @ '','', ''/b.m3u8'')]"
  have h4: "(trim (''  '' @ media_line) = [] \<or> startsWith (trim (''  '' @ media_line)) ''#'')
      \<and> ?two \<noteq> [] \<and> trim (''  '' @ media_line) = tag_line ?two []
      \<and> (\<forall>(pre, v) \<in> set ?two. \<not> str_includes pre uri_open \<and> v \<noteq> [] \<and> DQ \<notin> set v)
      \<and> \<not> str_includes [] uri_open"
    by code_simp
  have e4: "map (\<lambda>(pre, v). (pre, proxy_prefix @ encodeURIComponent
                      (resolve_reference (origin live_url)
                         (origin live_url @ directory_of (pathname live_url)) v))) ?two =
            [(''#EXT-X-MEDIA:'', ''/api/proxy-manifest?url=https%3A%2F%2Fhost%2Fpath%2Fa.m3u8''),
               ('',NAME='' @ [DQ] @ ''en'' @ [DQ] @ '','',
                ''/api/proxy-manifest?url=https%3A%2F%2Fhost%2Fb.m3u8'')]"
    by code_simp
  have r4: "rewrite_line live_url (''  '' @ media_line) =
     tag_line [(''#EXT-X-MEDIA:'', ''/api/proxy-manifest?url=https%3A%2F%2Fhost%2Fpath%2Fa.m3u8''),
               ('',NAME='' @ [DQ] @ ''en'' @ [DQ] @ '','',
                ''/api/proxy-manifest?url=https%3A%2F%2Fhost%2Fb.m3u8'')] []"
    using tag_line_rewrites_only_uri_values [where line = "''  '' @ media_line"
        and parsedUrl = live_url and attrs = ?two
        and rest = "[]", THEN conjunct1, THEN mp, OF h4]
    unfolding e4 .
  let ?attrs = "[(''#EXT-X-KEY:METHOD=AES-128,'', ''key.bin'')]"
  note rule = tag_line_rewrites_only_uri_values
  have h1: "(trim (key_line @ [CR]) = [] \<or> startsWith (trim (key_line @ [CR])) ''#'')
      \<and> ?attrs \<noteq> [] \<and> trim (key_line @ [CR]) = tag_line ?attrs []
      \<and> (\<forall>(pre, v) \<in> set ?attrs. \<not> str_includes pre uri_open \<and> v \<noteq> [] \<and> DQ \<notin> set v)
      \<and> \<not> str_includes [] uri_open"
    by code_simp
  have e1: "map (\<lambda>(pre, v). (pre, proxy_prefix @ encodeURIComponent
                      (resolve_reference (origin live_url)
                         (origin live_url @ directory_of (pathname live_url)) v))) ?attrs =
            [(''#EXT-X-KEY:METHOD=AES-128,'',
                ''/api/proxy-manifest?url=https%3A%2F%2Fhost%2Fpath%2Fkey.bin'')]"
    by code_simp
  have r1: "rewrite_line live_url (key_line @ [CR]) =
     tag_line [(''#EXT-X-KEY:METHOD=AES-128,'',
                ''/api/proxy-manifest?url=https%3A%2F%2Fhost%2Fpath%2Fkey.bin'')] []"
    using rule [where line = "key_line @ [CR]" and parsedUrl = live_url and attrs = ?attrs
        and rest = "[]", THEN conjunct1, THEN mp, OF h1]
    unfolding e1 .
  have h2: "(trim (''#EXT-X-ENDLIST'' @ [CR]) = [] \<or> startsWith (trim (''#EXT-X-ENDLIST'' @ [CR])) ''#'')
      \<and> \<not> str_includes (trim (''#EXT-X-ENDLIST'' @ [CR])) uri_open"
    by code_simp
  have r2: "rewrite_line live_url (''#EXT-X-ENDLIST'' @ [CR]) = ''#EXT-X-ENDLIST'' @ [CR]"
    using rule [where line = "''#EXT-X-ENDLIST'' @ [CR]" and parsedUrl = live_url,
        THEN conjunct2, THEN conjunct1, THEN mp, OF h2] .
  have h3: "LF \<notin> set (key_line @ [CR])" by code_simp
  have r3: "LF \<notin> set (rewrite_line live_url (key_line @ [CR]))"
    using rule [where line = "key_line @ [CR]" and parsedUrl = live_url,
        THEN conjunct2, THEN conjunct2, THEN mp, OF h3] .
  from r1 r4 r2 r3 show ?thesis by blast
qed

text \<open>
  The claim as stated says that only the quoted value changes. In a manifest with CRLF line
  ends the key tag ends with a carriage return, which the rewritten line has lost.
\<close>

theorem tag_line_loses_its_carriage_return_counterexample:
  "rewrite_line live_url (key_line @ [CR]) = key_line_rewritten
   \<and> rewrite_line live_url (key_line @ [CR]) \<noteq> key_line_rewritten @ [CR]"
  by code_simp

section \<open>Manifests of comments\<close>

text \<open>
  C8, as amended. A manifest in which every line, trimmed, is empty or starts with \<^verbatim>\<open>#\<close>,
  and does not contain \<^verbatim>\<open>URI="\<close>, is sent back as it is, byte for byte: splitting at the
  line feeds and joining with line feeds changes nothing.
\<close>

theorem comment_manifest_is_unchanged:
  assumes "\<forall>line \<in> set (split_lines text).
             (trim line = [] \<or> startsWith (trim line) ''#'')
             \<and> \<not> str_includes (trim line) uri_open"
  shows "rewrite_manifest parsedUrl text = text"
proof -
  have "map (rewrite_line parsedUrl) (split_lines text) = split_lines text"
    using assms by (intro map_idI) (simp add: rewrite_line_unchanged)
  then show ?thesis by (simp add: rewrite_manifest_def join_split_lines)
qed

theorem comment_manifest_is_unchanged_witness:
  "rewrite_manifest live_url comment_manifest = comment_manifest"
proof -
  have "\<forall>line \<in> set (split_lines comment_manifest).
             (trim line = [] \<or> startsWith (trim line) ''#'')
             \<and> \<not> str_includes (trim line) uri_open"
    by code_simp
  then show ?thesis by (rule comment_manifest_is_unchanged)
qed

text \<open>
  The claim as stated counts every line that starts with \<^verbatim>\<open>#\<close> as a comment line. A
  manifest made of the key tag alone consists of such a line and is not sent back as it is.
\<close>

theorem key_tag_manifest_is_rewritten_counterexample:
  "split_lines key_line = [key_line]
   \<and> startsWith (trim key_line) ''#''
   \<and> rewrite_manifest live_url key_line = key_line_rewritten
   \<and> rewrite_manifest live_url key_line \<noteq> key_line"
  by code_simp

section \<open>Reading the reference back\<close>

text \<open>
  C10. What the handler writes after \<^verbatim>\<open>/api/proxy-manifest?url=\<close>, for a media reference
  line and inside a \<^verbatim>\<open>URI="..."\<close> attribute, decodes to the resolved absolute URL, and it
  contains none of the characters that would end or split the value of the query
  parameter or of the attribute (double quote, \<^verbatim>\<open>&\<close>, \<^verbatim>\<open>#\<close>, \<^verbatim>\<open>+\<close>, \<^verbatim>\<open>=\<close>, space, line feed).
\<close>

theorem rewritten_url_decodes_to_resolved_url:
  assumes "base = origin parsedUrl @ directory_of (pathname parsedUrl)"
  shows "(trim line \<noteq> [] \<and> \<not> startsWith (trim line) ''#''
            \<longrightarrow> take (length proxy_prefix) (rewrite_line parsedUrl line) = proxy_prefix
              \<and> decodeURIComponent (drop (length proxy_prefix) (rewrite_line parsedUrl line)) =
                  Some (resolve_reference (origin parsedUrl) base (trim line))
              \<and> set (drop (length proxy_prefix) (rewrite_line parsedUrl line))
                  \<inter> {DQ, CHR ''&'', CHR ''#'', CHR ''+'', CHR ''='', CHR '' '', LF} = {})
       \<and> take (length (uri_open @ proxy_prefix)) (uri_replacer parsedUrl v) = uri_open @ proxy_prefix
       \<and> decodeURIComponent
            (butlast (drop (length (uri_open @ proxy_prefix)) (uri_replacer parsedUrl v))) =
           Some (resolve_reference (origin parsedUrl) base v)
       \<and> set (butlast (drop (length (uri_open @ proxy_prefix)) (uri_replacer parsedUrl v)))
            \<inter> {DQ, CHR ''&'', CHR ''#'', CHR ''+'', CHR ''='', CHR '' '', LF} = {}"
proof -
  have attr: "uri_replacer parsedUrl v =
                (uri_open @ proxy_prefix)
                  @ encodeURIComponent (resolve_reference (origin parsedUrl) base v) @ [DQ]"
    by (simp add: uri_replacer_resolve assms)
  have a1: "take (length (uri_open @ proxy_prefix)) (uri_replacer parsedUrl v) = uri_open @ proxy_prefix"
    unfolding attr by simp
  have a2: "butlast (drop (length (uri_open @ proxy_prefix)) (uri_replacer parsedUrl v)) =
              encodeURIComponent (resolve_reference (origin parsedUrl) base v)"
    unfolding attr by (simp add: butlast_append)
  have media: "trim line \<noteq> [] \<and> \<not> startsWith (trim line) ''#'' \<Longrightarrow>
                 rewrite_line parsedUrl line =
                   proxy_prefix @ encodeURIComponent
                     (resolve_reference (origin parsedUrl) base (trim line))"
    by (simp add: rewrite_line_media resolve_reference_def baseUrl_is_directory assms)
  have a3: "decodeURIComponent
            (butlast (drop (length (uri_open @ proxy_prefix)) (uri_replacer parsedUrl v))) =
           Some (resolve_reference (origin parsedUrl) base v)"
    unfolding a2 by (rule decode_encode)
  have a4: "set (butlast (drop (length (uri_open @ proxy_prefix)) (uri_replacer parsedUrl v)))
            \<inter> {DQ, CHR ''&'', CHR ''#'', CHR ''+'', CHR ''='', CHR '' '', LF} = {}"
    unfolding a2 by (rule encode_no_delimiter)
  have m: "take (length proxy_prefix) (rewrite_line parsedUrl line) = proxy_prefix
              \<and> decodeURIComponent (drop (length proxy_prefix) (rewrite_line parsedUrl line)) =
                  Some (resolve_reference (origin parsedUrl) base (trim line))
              \<and> set (drop (length proxy_prefix) (rewrite_line parsedUrl line))
                  \<inter> {DQ, CHR ''&'', CHR ''#'', CHR ''+'', CHR ''='', CHR '' '', LF} = {}"
    if "trim line \<noteq> [] \<and> \<not> startsWith (trim line) ''#''"
    unfolding media [OF that] using encode_no_delimiter by (simp add: decode_encode)
  from m a1 a3 a4 show ?thesis by blast
qed

theorem rewritten_url_decodes_to_resolved_url_witness:
  "decodeURIComponent (drop (length proxy_prefix) (rewrite_line live_url ''a b.ts?x=1&y=2'')) =
     Some ''https://host/path/a b.ts?x=1&y=2''
   \<and> rewrite_line live_url ''a b.ts?x=1&y=2'' =
     ''/api/proxy-manifest?url=https%3A%2F%2Fhost%2Fpath%2Fa%20b.ts%3Fx%3D1%26y%3D2''"
proof -
  have b: "''https://host/path/'' = origin live_url @ directory_of (pathname live_url)"
    by code_simp
  have m: "trim ''a b.ts?x=1&y=2'' \<noteq> [] \<and> \<not> startsWith (trim ''a b.ts?x=1&y=2'') ''#''"
    by code_simp
  have e: "resolve_reference (origin live_url) ''https://host/path/'' (trim ''a b.ts?x=1&y=2'') =
             ''https://host/path/a b.ts?x=1&y=2''"
    by code_simp
  have "decodeURIComponent (drop (length proxy_prefix) (rewrite_line live_url ''a b.ts?x=1&y=2'')) =
     Some ''https://host/path/a b.ts?x=1&y=2''"
    using rewritten_url_decodes_to_resolved_url [OF b, where line = "''a b.ts?x=1&y=2''",
        THEN conjunct1, THEN mp, OF m, THEN conjunct2, THEN conjunct1]
    unfolding e .
  moreover have "rewrite_line live_url ''a b.ts?x=1&y=2'' =
     ''/api/proxy-manifest?url=https%3A%2F%2Fhost%2Fpath%2Fa%20b.ts%3Fx%3D1%26y%3D2''"
    by code_simp
  ultimately show ?thesis by blast
qed


section \<open>The guards of the handler\<close>

text \<open>
  C6. A request whose \<^verbatim>\<open>url\<close> query parameter is missing or empty is answered with
  status 400 and the body \<^verbatim>\<open>URL required\<close>, which \<^verbatim>\<open>res.send\<close> sends as HTML in UTF-8 with
  its length of 12 bytes, and the handler makes no call to the upstream: the list of its
  calls is empty, whatever the platform would have answered.
\<close>

theorem missing_url_is_400:
  assumes "query_url req = None \<or> query_url req = Some []"
  shows "proxy_manifest pf req =
           (\<lparr>statusCode = 400,
             res_headers = [''Content-Type'' \<mapsto> ''text/html; charset=utf-8'',
                            ''Content-Length'' \<mapsto> ''12''],
             sent = Some (Str ''URL required'')\<rparr>, [])"
proof -
  have d: "decimal (length ''URL required'') = ''12''" by code_simp
  have pa: "res_send (Str ''URL required'') (res_status 400 fresh_res) =
              Inr \<lparr>statusCode = 400,
                   res_headers = [''Content-Type'' \<mapsto> ''text/html; charset=utf-8'',
                                  ''Content-Length'' \<mapsto> ''12''],
                   sent = Some (Str ''URL required'')\<rparr>"
    using plain_answer [of 400 "''URL required''"] unfolding d by simp
  from assms have "\<not> truthy (query_url req)" by (auto simp: truthy_def)
  then show ?thesis
    unfolding proxy_manifest_def pa by (simp add: uncaught_def)
qed

theorem missing_url_is_400_witness:
  "(query_url \<lparr>query_url = Some [], header_range = Some ''bytes=0-1023''\<rparr> = None
      \<or> query_url \<lparr>query_url = Some [], header_range = Some ''bytes=0-1023''\<rparr> = Some [])
   \<and> proxy_manifest (answering (upstream 200 Map.empty ''#EXTM3U''))
        \<lparr>query_url = Some [], header_range = Some ''bytes=0-1023''\<rparr> =
       (\<lparr>statusCode = 400,
         res_headers = [''Content-Type'' \<mapsto> ''text/html; charset=utf-8'',
                        ''Content-Length'' \<mapsto> ''12''],
         sent = Some (Str ''URL required'')\<rparr>, [])"
proof -
  have h: "query_url \<lparr>query_url = Some [], header_range = Some ''bytes=0-1023''\<rparr> = None
      \<or> query_url \<lparr>query_url = Some [], header_range = Some ''bytes=0-1023''\<rparr> = Some []"
    by simp
  from h missing_url_is_400 [OF h, of "answering (upstream 200 Map.empty ''#EXTM3U'')"]
  show ?thesis by (rule conjI)
qed

text \<open>
  C5, as amended. When the upstream answers with a status that is neither 2xx nor 206, the
  handler answers with the same status, and its only call to the upstream is the fetch: the
  body is not read. For every such status but 304 the body is \<^verbatim>\<open>Target returned <status>\<close>,
  the status written in decimal digits without a leading zero, sent as HTML in UTF-8 with
  its length. For status 304 the framework sends an empty body, and neither a
  \<^verbatim>\<open>Content-Type\<close> nor a \<^verbatim>\<open>Content-Length\<close>.
\<close>

theorem upstream_error_is_forwarded:
  assumes "query_url req = Some url" and "url \<noteq> []"
    and "fetch pf url (fetch_headers req) = Inr response"
    and "\<not> (200 \<le> resp_status response \<and> resp_status response \<le> 299)"
    and "resp_status response \<noteq> 206"
    and "200 \<le> resp_status response" and "resp_status response \<le> 999"
  shows "(resp_status response \<noteq> 304 \<longrightarrow>
            proxy_manifest pf req =
              (\<lparr>statusCode = resp_status response,
                res_headers = [''Content-Type'' \<mapsto> ''text/html; charset=utf-8'',
                               ''Content-Length'' \<mapsto>
                                 decimal (16 + length (decimal (resp_status response)))],
                sent = Some (Str (''Target returned '' @ decimal (resp_status response)))\<rparr>,
               [Fetch url (fetch_headers req)]))
       \<and> (resp_status response = 304 \<longrightarrow>
            proxy_manifest pf req =
              (\<lparr>statusCode = 304, res_headers = Map.empty, sent = Some (Str [])\<rparr>,
               [Fetch url (fetch_headers req)]))
       \<and> set (decimal (resp_status response)) \<subseteq> set ''0123456789''
       \<and> digits_value (decimal (resp_status response)) = resp_status response
       \<and> hd (decimal (resp_status response)) \<noteq> CHR ''0''"
proof -
  let ?s = "resp_status response"
  have on: "on_response pf url response =
              (res_send (Str (''Target returned '' @ decimal ?s)) (res_status ?s fresh_res), [])"
    using assms(4,5) by (simp add: on_response_def response_ok_def)
  have a: "proxy_manifest pf req =
              (\<lparr>statusCode = ?s,
                res_headers = [''Content-Type'' \<mapsto> ''text/html; charset=utf-8'',
                               ''Content-Length'' \<mapsto> decimal (16 + length (decimal ?s))],
                sent = Some (Str (''Target returned '' @ decimal ?s))\<rparr>,
               [Fetch url (fetch_headers req)])" if "?s \<noteq> 304"
  proof -
    from assms(4) have "?s \<noteq> 204" "?s \<noteq> 205" by auto
    note pa = plain_answer [OF this(1) that this(2), of "''Target returned '' @ decimal ?s"]
    have "length ''Target returned '' = 16" by simp
    then have len: "decimal (length (''Target returned '' @ decimal ?s)) =
                 decimal (16 + length (decimal ?s))"
      by (simp only: length_append)
    show ?thesis
      unfolding proxy_manifest_fetched [OF assms(1-3)] on fst_conv snd_conv pa len
      by simp
  qed
  have b: "proxy_manifest pf req =
              (\<lparr>statusCode = 304, res_headers = Map.empty, sent = Some (Str [])\<rparr>,
               [Fetch url (fetch_headers req)])" if "?s = 304"
    unfolding proxy_manifest_fetched [OF assms(1-3)] on that
    by (simp add: not_modified_answer)
  have c: "hd (decimal ?s) \<noteq> CHR ''0''"
    using decimal_leading_zero [of ?s] assms(6) by auto
  from a b c decimal_digits [of ?s] decimal_value [of ?s]
  show ?thesis by blast
qed

theorem upstream_error_is_forwarded_witness:
  "proxy_manifest (answering (upstream 403 Map.empty ''Forbidden'')) live_request =
     (\<lparr>statusCode = 403,
       res_headers = [''Content-Type'' \<mapsto> ''text/html; charset=utf-8'',
                      ''Content-Length'' \<mapsto> ''19''],
       sent = Some (Str ''Target returned 403'')\<rparr>,
      [Fetch ''https://host/path/live.m3u8'' (fetch_headers live_request)])
   \<and> proxy_manifest (answering (upstream 304 Map.empty [])) live_request =
     (\<lparr>statusCode = 304, res_headers = Map.empty, sent = Some (Str [])\<rparr>,
      [Fetch ''https://host/path/live.m3u8'' (fetch_headers live_request)])
   \<and> digits_value ''403'' = 403"
proof -
  let ?url = "''https://host/path/live.m3u8''"
  have h1: "query_url live_request = Some ?url" by (simp add: live_request_def)
  have h2: "?url \<noteq> []" by simp
  have f: "fetch (answering r) ?url (fetch_headers live_request) = Inr r" for r
    by (simp add: answering_def)
  let ?forbidden = "upstream 403 Map.empty ''Forbidden''"
  have s: "resp_status ?forbidden = 403" by (simp add: upstream_def)
  have h4: "\<not> (200 \<le> resp_status ?forbidden \<and> resp_status ?forbidden \<le> 299)"
    unfolding s by simp
  have h5: "resp_status ?forbidden \<noteq> 206" unfolding s by simp
  have h6: "200 \<le> resp_status ?forbidden" unfolding s by simp
  have h7: "resp_status ?forbidden \<le> 999" unfolding s by simp
  have n: "resp_status ?forbidden \<noteq> 304" unfolding s by simp
  have d: "decimal 403 = ''403''" by code_simp
  have l: "decimal (16 + length ''403'') = ''19''" by code_simp
  note forbidden = upstream_error_is_forwarded [OF h1 h2 f h4 h5 h6 h7]
  have a: "proxy_manifest (answering ?forbidden) live_request =
     (\<lparr>statusCode = 403,
       res_headers = [''Content-Type'' \<mapsto> ''text/html; charset=utf-8'',
                      ''Content-Length'' \<mapsto> ''19''],
       sent = Some (Str ''Target returned 403'')\<rparr>,
      [Fetch ?url (fetch_headers live_request)])"
    using forbidden [THEN conjunct1, THEN mp, OF n] unfolding s d l by simp
  have v: "digits_value ''403'' = 403"
    using forbidden [THEN conjunct2, THEN conjunct2, THEN conjunct2, THEN conjunct1]
    unfolding s d .
  let ?unchanged = "upstream 304 Map.empty []"
  have s': "resp_status ?unchanged = 304" by (simp add: upstream_def)
  have h4': "\<not> (200 \<le> resp_status ?unchanged \<and> resp_status ?unchanged \<le> 299)"
    unfolding s' by simp
  have h5': "resp_status ?unchanged \<noteq> 206" unfolding s' by simp
  have h6': "200 \<le> resp_status ?unchanged" unfolding s' by simp
  have h7': "resp_status ?unchanged \<le> 999" unfolding s' by simp
  have b: "proxy_manifest (answering ?unchanged) live_request =
     (\<lparr>statusCode = 304, res_headers = Map.empty, sent = Some (Str [])\<rparr>,
      [Fetch ?url (fetch_headers live_request)])"
    using upstream_error_is_forwarded [OF h1 h2 f h4' h5' h6' h7', THEN conjunct2, THEN conjunct1,
        THEN mp, OF s'] .
  from a b v show ?thesis by blast
qed

text \<open>
  The claim as stated fails for an upstream that answers 304, a status that is neither 2xx
  nor 206: the answer has status 304 and an empty body, not \<^verbatim>\<open>Target returned 304\<close>.
\<close>

theorem not_modified_has_no_body_counterexample:
  "resp_status (upstream 304 Map.empty []) = 304
   \<and> statusCode (fst (proxy_manifest (answering (upstream 304 Map.empty [])) live_request)) = 304
   \<and> sent (fst (proxy_manifest (answering (upstream 304 Map.empty [])) live_request)) = Some (Str [])
   \<and> sent (fst (proxy_manifest (answering (upstream 304 Map.empty [])) live_request))
       \<noteq> Some (Str ''Target returned 304'')"
  by code_simp

section \<open>Manifest or binary\<close>

text \<open>
  C4, as amended. After a fetch that succeeded (status 2xx), the response is treated as
  manifest text exactly when the upstream \<^verbatim>\<open>Content-Type\<close> contains \<^verbatim>\<open>mpegurl\<close> or the
  target URL contains \<^verbatim>\<open>.m3u8\<close> anywhere (not only at its end): then the body is read as
  text and sent rewritten; otherwise the body is read as bytes and sent unchanged.
\<close>

theorem manifest_iff_mpegurl_or_m3u8_anywhere:
  assumes "query_url req = Some url" and "url \<noteq> []"
    and "fetch pf url (fetch_headers req) = Inr response"
    and "200 \<le> resp_status response \<and> resp_status response \<le> 299"
    and "contentType = (case resp_header response ''Content-Type'' of None \<Rightarrow> [] | Some v \<Rightarrow> v)"
    and "resp_text response = Inr text"
    and "resp_arrayBuffer response = Inr buffer"
    and "new_URL pf url = Inr parsedUrl"
  shows "(str_includes contentType ''mpegurl'' \<or> str_includes url ''.m3u8''
            \<longrightarrow> sent (fst (proxy_manifest pf req)) = Some (Str (rewrite_manifest parsedUrl text))
              \<and> snd (proxy_manifest pf req) = [Fetch url (fetch_headers req), ReadText])
       \<and> (\<not> (str_includes contentType ''mpegurl'' \<or> str_includes url ''.m3u8'')
            \<longrightarrow> sent (fst (proxy_manifest pf req)) = Some (Buf buffer)
              \<and> snd (proxy_manifest pf req) = [Fetch url (fetch_headers req), ReadArrayBuffer])"
proof -
  obtain m where m: "fst (send_manifest pf url response (passed_headers response)) = Inr m"
    "sent m = Some (Str (rewrite_manifest parsedUrl text))"
    using sent_send_manifest [OF statusCode_passed_headers assms(6,8)] by blast
  obtain b where b: "fst (send_binary contentType response (passed_headers response)) = Inr b"
    "sent b = Some (Buf buffer)"
    using sent_send_binary [OF statusCode_passed_headers assms(7)] by blast
  have e1: "snd (send_manifest pf url response (passed_headers response)) = [ReadText]"
    using assms(6,8) by (simp add: send_manifest_def)
  have e2: "snd (send_binary contentType response (passed_headers response)) = [ReadArrayBuffer]"
    using assms(7) by (simp add: send_binary_def Let_def)
  show ?thesis
    unfolding proxy_manifest_fetched [OF assms(1-3)] on_response_ok [OF assms(4,5)]
    using m b e1 e2 by simp
qed

theorem manifest_iff_mpegurl_or_m3u8_anywhere_witness:
  "sent (fst (proxy_manifest (answering ts_upstream) token_request)) =
     Some (Str (rewrite_manifest live_url ''segment.ts''))
   \<and> snd (proxy_manifest (answering ts_upstream) token_request) =
       [Fetch ''https://host/path/live.m3u8?token=abc'' (fetch_headers token_request), ReadText]"
proof -
  let ?url = "''https://host/path/live.m3u8?token=abc''"
  have h1: "query_url token_request = Some ?url" by (simp add: token_request_def)
  have h2: "?url \<noteq> []" by simp
  have h3: "fetch (answering ts_upstream) ?url (fetch_headers token_request) = Inr ts_upstream"
    by (simp add: answering_def)
  have h4: "200 \<le> resp_status ts_upstream \<and> resp_status ts_upstream \<le> 299"
    by (simp add: ts_upstream_def upstream_def)
  have h5: "''video/mp2t'' =
              (case resp_header ts_upstream ''Content-Type'' of None \<Rightarrow> [] | Some v \<Rightarrow> v)"
    by (simp add: ts_upstream_def upstream_def)
  have h6: "resp_text ts_upstream = Inr ''segment.ts''"
    by (simp add: ts_upstream_def upstream_def)
  have h7: "resp_arrayBuffer ts_upstream = Inr ''segment.ts''"
    by (simp add: ts_upstream_def upstream_def)
  have h8: "new_URL (answering ts_upstream) ?url = Inr live_url"
    by (simp add: answering_def)
  have c: "str_includes ?url ''.m3u8''" by code_simp
  from manifest_iff_mpegurl_or_m3u8_anywhere [OF h1 h2 h3 h4 h5 h6 h7 h8] c
  show ?thesis by blast
qed

text \<open>
  The claim as stated fails for a manifest URL with a query string: the URL does not end
  with \<^verbatim>\<open>.m3u8\<close>, the \<^verbatim>\<open>Content-Type\<close> has no \<^verbatim>\<open>mpegurl\<close>, and yet the body is rewritten
  instead of being forwarded as it is.
\<close>

theorem url_not_ending_in_m3u8_counterexample:
  "\<not> str_includes ''video/mp2t'' ''mpegurl''
   \<and> \<not> endsWith ''https://host/path/live.m3u8?token=abc'' ''.m3u8''
   \<and> resp_header ts_upstream ''Content-Type'' = Some ''video/mp2t''
   \<and> resp_arrayBuffer ts_upstream = Inr ''segment.ts''
   \<and> sent (fst (proxy_manifest (answering ts_upstream) token_request)) =
       Some (Str ''/api/proxy-manifest?url=https%3A%2F%2Fhost%2Fpath%2Fsegment.ts'')
   \<and> sent (fst (proxy_manifest (answering ts_upstream) token_request)) \<noteq> Some (Buf ''segment.ts'')"
  by code_simp

section \<open>Range requests\<close>

text \<open>
  C7. The caller sends \<^verbatim>\<open>Range: bytes=0-1023\<close> and the upstream answers 206 with a
  \<^verbatim>\<open>Content-Range\<close> header and a body of 1024 bytes. The \<^verbatim>\<open>Range\<close> header is forwarded on
  the fetch, \<^verbatim>\<open>Content-Range\<close> and \<^verbatim>\<open>Accept-Ranges\<close> are copied, and \<^verbatim>\<open>Content-Length\<close> is
  the length of the body sent, but the status of the answer is 200 and not 206: the handler
  never calls \<^verbatim>\<open>res.status\<close> on this path.
\<close>

theorem partial_content_is_answered_with_200:
  "statusCode (fst (proxy_manifest (answering partial_upstream) range_request)) = 200
   \<and> res_headers (fst (proxy_manifest (answering partial_upstream) range_request)) ''Content-Range''
       = Some ''bytes 0-1023/146515''
   \<and> res_headers (fst (proxy_manifest (answering partial_upstream) range_request)) ''Accept-Ranges''
       = Some ''bytes''
   \<and> res_headers (fst (proxy_manifest (answering partial_upstream) range_request)) ''Content-Length''
       = Some ''1024''
   \<and> sent (fst (proxy_manifest (answering partial_upstream) range_request))
       = Some (Buf (replicate 1024 (CHR ''x'')))
   \<and> snd (proxy_manifest (answering partial_upstream) range_request)
       = [Fetch ''https://host/path/segment.ts''
            [(''User-Agent'', user_agent), (''Accept'', ''*/*''),
             (''Accept-Language'', ''en-US,en;q=0.9''), (''Range'', ''bytes=0-1023'')],
          ReadArrayBuffer]"
  by code_simp

section \<open>Errors\<close>

text \<open>
  C9. A segment is fetched; the upstream answers 200 with the \<^verbatim>\<open>Content-Type\<close>
  \<^verbatim>\<open>application/octet-stream;\<close> and its body breaks off, so that \<^verbatim>\<open>arrayBuffer()\<close> rejects
  with the message \<^verbatim>\<open>terminated\<close>. The handler has copied the \<^verbatim>\<open>Content-Type\<close> by then. The
  \<^verbatim>\<open>catch\<close> block sets the status 500 on the response object, and its \<^verbatim>\<open>res.send\<close> throws
  on that \<^verbatim>\<open>Content-Type\<close>, which is not a media type (\<^verbatim>\<open>invalid parameter format\<close>): nothing
  is sent, neither the 500 nor the message. Every other error of the \<^verbatim>\<open>try\<close> block is
  answered with status 500 and its message (lemma \<open>caught_error_is_500\<close>).
\<close>

theorem rejected_body_after_malformed_type_is_unanswered:
  "query_url segment_request = Some ''https://host/path/segment.ts''
   \<and> resp_status broken_segment = 200
   \<and> resp_header broken_segment ''Content-Type'' = Some ''application/octet-stream;''
   \<and> resp_arrayBuffer broken_segment = Inl ''terminated''
   \<and> snd (proxy_manifest (answering broken_segment) segment_request) =
       [Fetch ''https://host/path/segment.ts'' (fetch_headers segment_request), ReadArrayBuffer]
   \<and> setCharset ''application/octet-stream;'' = Inl ''invalid parameter format''
   \<and> statusCode (fst (proxy_manifest (answering broken_segment) segment_request)) = 500
   \<and> sent (fst (proxy_manifest (answering broken_segment) segment_request)) = None"
  by code_simp

end
